theory Spec2Isabelle
  imports Main "HOL-Library.Multiset"
begin

section \<open>Common types\<close>

text \<open>
  A Go \<^verbatim>\<open>string\<close> and a \<^verbatim>\<open>[]byte\<close> are byte sequences: \<^typ>\<open>string\<close>.
  A Go \<^verbatim>\<open>error\<close> is represented by its message; the nil error is \<^term>\<open>None\<close>.
\<close>

type_synonym bytes = string
type_synonym error = string

text \<open>The \<^verbatim>\<open>result\<close> struct of the source.\<close>

record result =
  builderType :: string
  logURL :: string
  succeeded :: bool

section \<open>The tab writer used by the final report\<close>

text \<open>
  \<^verbatim>\<open>commentResults\<close> formats its table through Go's \<^verbatim>\<open>text/tabwriter\<close>, created as
  \<^verbatim>\<open>tabwriter.NewWriter(buf, 0, 0, 1, ' ', 0)\<close>: minimal cell width 0, padding 1, padding
  character space, no flags (cells are left-aligned, nothing is filtered). The library is
  modelled for that configuration: text is cut into lines at newlines and into cells at tabs,
  a column is a block of consecutive lines that all have a tab-terminated cell in it, its
  width is the widest cell of the block plus the padding, and the text before a newline is
  not part of any column. The model measures a cell by its length in bytes and gives no
  special meaning to vertical tab, form feed and the escape byte 0xff; it is the library's
  behaviour on ASCII text free of those three bytes.
\<close>

definition tw_minwidth :: nat where
  "tw_minwidth = 0"

definition tw_padding :: nat where
  "tw_padding = 1"

definition tw_padchar :: char where
  "tw_padchar = CHR '' ''"

definition newline :: char where
  "newline = CHR 0x0A"

definition tab :: char where
  "tab = CHR 0x09"

text \<open>\<^verbatim>\<open>strings.Split\<close> for a one-byte separator: n separators give n + 1 pieces.\<close>

fun split_on :: "char \<Rightarrow> string \<Rightarrow> string list" where
  "split_on c [] = [[]]"
| "split_on c (x # xs) =
     (if x = c then [] # split_on c xs
      else (case split_on c xs of [] \<Rightarrow> [[x]] | p # ps \<Rightarrow> (x # p) # ps))"

text \<open>
  A buffered line: its cells (the last one is the text before the newline) and whether a
  newline ended it. Only the last line of the buffer has none.
\<close>

type_synonym tw_line = "string list \<times> bool"

definition final_line :: "string \<Rightarrow> tw_line" where
  "final_line s =
     (let cs = split_on tab s
      in (if last cs = [] then butlast cs else cs, False))"

definition tw_lines :: "string \<Rightarrow> tw_line list" where
  "tw_lines text =
     (let segs = split_on newline text
      in map (\<lambda>s. (split_on tab s, True)) (butlast segs) @ [final_line (last segs)])"

text \<open>\<^verbatim>\<open>writeLines\<close>, for one line: a cell is padded when its column has a width.\<close>

fun writeCells :: "nat list \<Rightarrow> nat \<Rightarrow> string list \<Rightarrow> string" where
  "writeCells ws j [] = []"
| "writeCells ws j (c # cs) =
     (if j < length ws then c @ replicate (ws ! j - length c) tw_padchar else c)
     @ writeCells ws (Suc j) cs"

definition writeLine :: "nat list \<Rightarrow> tw_line \<Rightarrow> string" where
  "writeLine ws l = writeCells ws 0 (fst l) @ (if snd l then [newline] else [])"

definition in_column :: "nat \<Rightarrow> tw_line \<Rightarrow> bool" where
  "in_column column l \<longleftrightarrow> Suc column < length (fst l)"

definition block_width :: "nat \<Rightarrow> tw_line list \<Rightarrow> nat" where
  "block_width column blk =
     foldl (\<lambda>width l. if length (fst l ! column) + tw_padding > width
                        then length (fst l ! column) + tw_padding else width)
       tw_minwidth blk"

definition fmt_measure :: "nat list \<times> tw_line list \<Rightarrow> nat" where
  "fmt_measure = (\<lambda>(ws, ls). (\<Sum>l\<leftarrow>ls. length (fst l) - length ws) + length ls)"

text \<open>
  \<^verbatim>\<open>format\<close>: \<open>ws\<close> are the widths of the columns to the left, so the column at hand is
  \<open>length ws\<close>. Lines without a cell in it are written as they are; a block of lines with
  one is formatted with the block's width pushed.
\<close>

function format :: "nat list \<Rightarrow> tw_line list \<Rightarrow> string" where
  "format ws [] = []"
| "format ws (l # ls) =
     (if in_column (length ws) l
      then format (ws @ [block_width (length ws) (l # takeWhile (in_column (length ws)) ls)])
             (l # takeWhile (in_column (length ws)) ls)
           @ format ws (dropWhile (in_column (length ws)) ls)
      else writeLine ws l @ format ws ls)"
  by pat_completeness auto

lemma sum_takeWhile_le:
  "(\<Sum>l\<leftarrow>takeWhile P ls. (f l :: nat)) \<le> (\<Sum>l\<leftarrow>ls. f l)"
  by (induction ls) auto

lemma sum_dropWhile_le:
  "(\<Sum>l\<leftarrow>dropWhile P ls. (f l :: nat)) \<le> (\<Sum>l\<leftarrow>ls. f l)"
  by (induction ls) auto

lemma sum_block_less:
  "\<forall>l \<in> set ls. in_column n l \<Longrightarrow>
   (\<Sum>l\<leftarrow>ls. length (fst l) - Suc n) \<le> (\<Sum>l\<leftarrow>ls. length (fst l) - n)"
  by (induction ls) auto

termination format
proof (relation "measure fmt_measure", goal_cases)
  case 1
  show ?case by simp
next
  case (2 ws l ls)
  let ?P = "in_column (length ws)"
  have a: "(\<Sum>l\<leftarrow>takeWhile ?P ls. length (fst l) - Suc (length ws))
           \<le> (\<Sum>l\<leftarrow>takeWhile ?P ls. length (fst l) - length ws)"
    by (rule sum_block_less) (auto dest: set_takeWhileD)
  have b: "(\<Sum>l\<leftarrow>takeWhile ?P ls. length (fst l) - length ws)
           \<le> (\<Sum>l\<leftarrow>ls. length (fst l) - length ws)"
    by (rule sum_takeWhile_le)
  have c: "length (fst l) - Suc (length ws) < length (fst l) - length ws"
    using 2 by (simp add: in_column_def)
  have d: "length (takeWhile ?P ls) \<le> length ls"
    by (rule length_takeWhile_le)
  show ?case using a b c d by (simp add: fmt_measure_def)
next
  case (3 ws l ls)
  let ?P = "in_column (length ws)"
  have b: "(\<Sum>l\<leftarrow>dropWhile ?P ls. length (fst l) - length ws)
           \<le> (\<Sum>l\<leftarrow>ls. length (fst l) - length ws)"
    by (rule sum_dropWhile_le)
  have d: "length (dropWhile ?P ls) \<le> length ls"
    by (rule length_dropWhile_le)
  show ?case using b d by (simp add: fmt_measure_def)
next
  case (4 ws l ls)
  show ?case by (simp add: fmt_measure_def)
qed

text \<open>Everything written to the writer, then \<^verbatim>\<open>Flush\<close>.\<close>

definition tabwriter :: "string \<Rightarrow> string" where
  "tabwriter text = format [] (tw_lines text)"

section \<open>The result reporter\<close>

text \<open>
  The review system is external: a call to it is recorded as an event, and what it answers
  is a parameter.
\<close>

record change_info =
  changeID :: string
  currentRevision :: string

record review_input =
  message :: string
  labels :: "(string \<times> int) list"

datatype gerrit_call =
  SetReview string string review_input
| QueryChanges string

text \<open>
  The loop of \<^verbatim>\<open>commentResults\<close> over the results: the state string, the label and the text
  written to the tab writer so far.
\<close>

fun results_loop :: "result list \<Rightarrow> string \<times> int \<times> string \<Rightarrow> string \<times> int \<times> string" where
  "results_loop [] acc = acc"
| "results_loop (res # rs) (state, label, text) =
     (let s = (if \<not> succeeded res then ''failed'' else ''pass'');
          state' = (if \<not> succeeded res then ''failed'' else state);
          label' = (if \<not> succeeded res then - 1 else label)
      in results_loop rs
           (state', label',
            text @ ''    '' @ builderType res @ [tab] @ ''['' @ s @ '']'' @ [tab]
                 @ logURL res @ [newline]))"

text \<open>The review input that \<^verbatim>\<open>commentResults\<close> builds: the comment and the label.\<close>

definition report :: "result list \<Rightarrow> review_input" where
  "report results =
     (case results_loop results (''succeeded'', 1, []) of
        (state, label, text) \<Rightarrow>
          \<lparr>message = ''Tests '' @ state @ [newline] @ tabwriter text,
           labels = [(''TryBot-Result'', label)]\<rparr>)"

text \<open>
  \<^verbatim>\<open>commentResults\<close>: the one call it makes to the review system, and the error it returns
  (\<open>setReview\<close> is the review system's answer to that call).
\<close>

definition commentResults ::
  "(string \<Rightarrow> string \<Rightarrow> review_input \<Rightarrow> error option) \<Rightarrow> change_info \<Rightarrow> result list
   \<Rightarrow> gerrit_call list \<times> error option" where
  "commentResults setReview change results =
     ([SetReview (changeID change) (currentRevision change) (report results)],
      (case setReview (changeID change) (currentRevision change) (report results) of
         Some err \<Rightarrow> Some err
       | None \<Rightarrow> None))"

definition commentBeginning ::
  "(string \<Rightarrow> string \<Rightarrow> review_input \<Rightarrow> error option) \<Rightarrow> change_info
   \<Rightarrow> gerrit_call list \<times> error option" where
  "commentBeginning setReview change =
     ([SetReview (changeID change) (currentRevision change)
         \<lparr>message = ''TryBots beginning'', labels = []\<rparr>],
      setReview (changeID change) (currentRevision change)
         \<lparr>message = ''TryBots beginning'', labels = []\<rparr>)"

section \<open>The archive fetcher\<close>

text \<open>
  The parts of the \<^verbatim>\<open>tester\<close> struct that the modelled functions read; \<open>gcs\<close> says whether
  the storage client is non-nil.
\<close>

record tester =
  source :: string
  repo :: string
  gcs :: bool

text \<open>
  The HTTP client and the gzip library are external. \<open>newRequest\<close> is the verdict of
  \<^verbatim>\<open>http.NewRequest\<close> on a method and a URL, \<open>doRequest\<close> what \<^verbatim>\<open>t.http.Do\<close> returns for a
  request, \<open>body\<close> what \<^verbatim>\<open>io.ReadAll\<close> returns on the response body, and \<open>gzipNewReader\<close> the
  error of \<^verbatim>\<open>gzip.NewReader\<close> on the bytes. Every request sent is recorded as an event.
\<close>

record http_response =
  statusCode :: nat
  status :: string
  body :: "error + bytes"

record http_world =
  newRequest :: "string \<Rightarrow> string \<Rightarrow> error option"
  doRequest :: "string \<Rightarrow> string \<Rightarrow> error + http_response"
  gzipNewReader :: "bytes \<Rightarrow> error option"

datatype http_event = HttpDo string string

text \<open>The errors of \<^verbatim>\<open>getTar\<close>, one constructor for each of its error returns.\<close>

datatype getTar_error =
  NewRequestFailed error
| DoFailed error
| BadStatus string string
| ReadFailed error
| NotGzip error

definition http_StatusOK :: nat where
  "http_StatusOK = 200"

definition tarURL :: "tester \<Rightarrow> string \<Rightarrow> string" where
  "tarURL t revision = source t @ ''/'' @ repo t @ ''/+archive/'' @ revision @ ''.tar.gz''"

definition getTar ::
  "tester \<Rightarrow> http_world \<Rightarrow> string \<Rightarrow> http_event list \<times> (getTar_error + bytes)" where
  "getTar t h revision =
     (case newRequest h ''GET'' (tarURL t revision) of
        Some err \<Rightarrow> ([], Inl (NewRequestFailed err))
      | None \<Rightarrow>
          (case doRequest h ''GET'' (tarURL t revision) of
             Inl err \<Rightarrow> ([HttpDo ''GET'' (tarURL t revision)], Inl (DoFailed err))
           | Inr resp \<Rightarrow>
               if statusCode resp \<noteq> http_StatusOK
               then ([HttpDo ''GET'' (tarURL t revision)],
                     Inl (BadStatus (tarURL t revision) (status resp)))
               else (case body resp of
                       Inl err \<Rightarrow> ([HttpDo ''GET'' (tarURL t revision)], Inl (ReadFailed err))
                     | Inr archive \<Rightarrow>
                         (case gzipNewReader h archive of
                            Some err \<Rightarrow> ([HttpDo ''GET'' (tarURL t revision)], Inl (NotGzip err))
                          | None \<Rightarrow> ([HttpDo ''GET'' (tarURL t revision)], Inr archive)))))"

text \<open>The error of \<^verbatim>\<open>run\<close>: the error of \<^verbatim>\<open>getTar\<close>, wrapped.\<close>

datatype run_error = ArchiveError getTar_error

section \<open>Builder selection\<close>

text \<open>
  \<^verbatim>\<open>allowedBuilders\<close> is a \<^verbatim>\<open>map[string]bool\<close>: reading a key that is absent gives false.
\<close>

definition allowedBuilders :: "string \<rightharpoonup> bool" where
  "allowedBuilders = map_of
     [(''js-wasm'', True),
      (''linux-386'', True),
      (''linux-386-longtest'', True),
      (''linux-amd64'', True),
      (''linux-amd64-longtest'', True),
      (''linux-amd64-bullseye'', True),
      (''darwin-amd64-12_0'', True),
      (''darwin-arm64-12'', True),
      (''windows-386-2012'', True),
      (''windows-amd64-2016'', True),
      (''windows-arm64-11'', True)]"

definition allowed :: "string \<Rightarrow> bool" where
  "allowed b = (case allowedBuilders b of Some v \<Rightarrow> v | None \<Rightarrow> False)"

definition firstClassBuilders :: "string list" where
  "firstClassBuilders =
     [''linux-386-longtest'',
      ''linux-amd64-longtest'',
      ''linux-arm-aws'',
      ''linux-arm64-aws'',
      ''darwin-amd64-12_0'',
      ''darwin-arm64-12'',
      ''windows-386-2012'',
      ''windows-amd64-longtest'']"

text \<open>A fatal exit: the format and the arguments of \<^verbatim>\<open>log.Fatalf\<close>.\<close>

datatype fatal = Fatal string "string list" | FatalErr string run_error

text \<open>The loop of \<^verbatim>\<open>main\<close> over the pieces of the \<^verbatim>\<open>-builders\<close> flag.\<close>

fun check_builders :: "string list \<Rightarrow> string list \<Rightarrow> fatal + string list" where
  "check_builders [] builders = Inr builders"
| "check_builders (b # bs) builders =
     (if \<not> allowed b then Inl (Fatal ''builder type %q not allowed'' [b])
      else check_builders bs (builders @ [b]))"

definition select_builders :: "string \<Rightarrow> fatal + string list" where
  "select_builders buildersStr =
     (if buildersStr \<noteq> [] then check_builders (split_on CHR '','' buildersStr) []
      else Inr firstClassBuilders)"

section \<open>One worker run\<close>

text \<open>
  What \<^verbatim>\<open>runTests\<close> reads of a \<^verbatim>\<open>dashboard.BuildConfig\<close>: the values of its methods
  \<^verbatim>\<open>GoBootstrapURL(buildenv.Production)\<close>, \<^verbatim>\<open>Env()\<close>, \<^verbatim>\<open>GorootFinal()\<close>, \<^verbatim>\<open>AllScript()\<close> and
  \<^verbatim>\<open>AllScriptArgs()\<close>.
\<close>

record build_config =
  goBootstrapURL :: string
  configEnv :: "string list"
  gorootFinal :: string
  allScript :: string
  allScriptArgs :: "string list"

text \<open>
  What is global to the process: the \<^verbatim>\<open>-gcs\<close> flag, the table \<^verbatim>\<open>dashboard.Builders\<close> and
  the library function \<^verbatim>\<open>path.Join\<close> (both defined outside the modelled file, so parameters).
\<close>

record globals =
  gcsBucket :: string
  dashboardBuilders :: "string \<rightharpoonup> build_config"
  pathJoin :: "string \<Rightarrow> string \<Rightarrow> string"

text \<open>
  What the worker provider, the random source and the log sink answer during one run. Each
  is called at most once in a run, so one answer each; \<open>liveWriterErr\<close> and
  \<open>liveWriterCloseErr\<close> are the errors of \<^verbatim>\<open>newLiveWriter\<close> and of the sink's \<^verbatim>\<open>Close\<close>.
\<close>

record worker_env =
  createBuildlet :: "error + string"
  putTarFromURL :: "error option"
  putTar :: "error option"
  put :: "error option"
  randSuffix :: bytes
  liveWriterErr :: "error option"
  liveWriterCloseErr :: "error option"
  workDir :: "error + string"
  exec :: "error option \<times> error option"
  buildletClose :: "error option"

text \<open>Where the output of the test script goes: the \<^verbatim>\<open>io.Writer\<close> handed to \<^verbatim>\<open>Exec\<close>.\<close>

datatype output_sink = GcsWriter string string | LocalWriter string

text \<open>
  The calls a run makes, in order, and its log lines (format and arguments of
  \<^verbatim>\<open>log.Printf\<close>). \<open>Exec\<close> carries the command, its arguments, the extra environment and the
  output; the line that its \<^verbatim>\<open>OnStartExec\<close> callback logs is within that call and not listed.
  \<^verbatim>\<open>runTests\<close> below gives the calls and the result of a run all of whose calls return;
  whether \<^verbatim>\<open>Exec\<close> returns when it writes to a \<^verbatim>\<open>gcsLiveWriter\<close> is settled with the sink, in
  \<open>runTests_returns\<close>.
\<close>

datatype wevent =
  Log string "string list"
| CreateBuildletWithStatus string
| BuildletClose
| PutTarFromURL string string
| PutTar bytes string
| Put string string nat
| RandRead nat
| NewLiveWriter string string
| LiveWriterClose
| WorkDir
| Exec string "string list" "string list" output_sink

definition emit :: "wevent list \<Rightarrow> wevent list \<times> 'a \<Rightarrow> wevent list \<times> 'a" where
  "emit evs k = (evs @ fst k, snd k)"

text \<open>A deferred call runs when the function returns, whatever it returns.\<close>

definition deferred :: "wevent list \<Rightarrow> wevent list \<times> 'a \<Rightarrow> wevent list \<times> 'a" where
  "deferred evs k = (fst k @ evs, snd k)"

text \<open>\<^verbatim>\<open>%x\<close> of a byte slice: two lower-case hexadecimal digits for each byte.\<close>

definition hex_digit :: "nat \<Rightarrow> char" where
  "hex_digit n = ''0123456789abcdef'' ! n"

definition hex :: "bytes \<Rightarrow> string" where
  "hex bs = concat (map (\<lambda>b. [hex_digit (of_char b div 16), hex_digit (of_char b mod 16)]) bs)"

text \<open>The two deferred functions of \<^verbatim>\<open>runTests\<close>.\<close>

definition close_buildlet :: "worker_env \<Rightarrow> string \<Rightarrow> string \<Rightarrow> wevent list" where
  "close_buildlet w bt buildletName =
     BuildletClose #
     (case buildletClose w of
        Some err \<Rightarrow> [Log ''%s: unable to close buildlet %q: %s'' [bt, buildletName, err]]
      | None \<Rightarrow> [Log ''%s: destroyed buildlet'' [bt]])"

definition close_live_writer :: "worker_env \<Rightarrow> string \<Rightarrow> wevent list" where
  "close_live_writer w bt =
     LiveWriterClose #
     (case liveWriterCloseErr w of
        Some err \<Rightarrow> [Log ''%s: failed to flush GCS writer: %s'' [bt, err]]
      | None \<Rightarrow> [])"

text \<open>From \<^verbatim>\<open>c.WorkDir\<close> to the end of \<^verbatim>\<open>runTests\<close>.\<close>

definition run_all ::
  "worker_env \<Rightarrow> string \<Rightarrow> build_config \<Rightarrow> string \<Rightarrow> output_sink
   \<Rightarrow> wevent list \<times> (string \<times> bool)" where
  "run_all w bt buildConfig url out =
     (case workDir w of
        Inl err \<Rightarrow>
          ([WorkDir, Log ''%s: failed to retrieve work dir: %s'' [bt, err]], ('''', False))
      | Inr work \<Rightarrow>
          emit [WorkDir,
                Exec (''go/'' @ allScript buildConfig) (allScriptArgs buildConfig)
                  (configEnv buildConfig
                     @ [''GOPATH='' @ work @ ''/gopath'',
                        ''GOROOT_FINAL='' @ gorootFinal buildConfig])
                  out]
            (case exec w of
               (remoteErr, Some execErr) \<Rightarrow>
                 ([Log ''%s: failed to execute all.bash: %s'' [bt, execErr]], (url, False))
             | (Some remoteErr, None) \<Rightarrow>
                 ([Log ''%s: tests failed: %s'' [bt, remoteErr]], (url, False))
             | (None, None) \<Rightarrow>
                 ([Log ''%s: tests succeeded'' [bt]], (url, True))))"

text \<open>From \<^verbatim>\<open>rand.Read\<close> on: the choice of the log sink, with its deferred close.\<close>

definition with_output ::
  "tester \<Rightarrow> globals \<Rightarrow> worker_env \<Rightarrow> string \<Rightarrow> string \<Rightarrow> string \<Rightarrow> build_config
   \<Rightarrow> wevent list \<times> (string \<times> bool)" where
  "with_output t g w bt revision buildletName buildConfig =
     emit [RandRead 4]
       (if gcs t then
          (let gcsObject = revision @ ''-'' @ hex (randSuffix w) @ ''/'' @ bt
           in case liveWriterErr w of
                Some err \<Rightarrow>
                  ([NewLiveWriter (gcsBucket g) gcsObject,
                    Log ''%s: failed to create live writer: %s'' [bt, err]], ('''', False))
              | None \<Rightarrow>
                  emit [NewLiveWriter (gcsBucket g) gcsObject]
                    (deferred (close_live_writer w bt)
                       (run_all w bt buildConfig
                          (''https://storage.cloud.google.com/''
                             @ pathJoin g (gcsBucket g) gcsObject)
                          (GcsWriter (gcsBucket g) gcsObject))))
        else run_all w bt buildConfig '''' (LocalWriter buildletName))"

text \<open>From the lookup of the builder type to the upload of the version file.\<close>

definition staged ::
  "tester \<Rightarrow> globals \<Rightarrow> worker_env \<Rightarrow> string \<Rightarrow> string \<Rightarrow> bytes \<Rightarrow> string
   \<Rightarrow> wevent list \<times> (string \<times> bool)" where
  "staged t g w bt revision archive buildletName =
     (case dashboardBuilders g bt of
        None \<Rightarrow> ([Log ''%s: unknown builder type'' [bt]], ('''', False))
      | Some buildConfig \<Rightarrow>
          (case (if goBootstrapURL buildConfig \<noteq> '''' then putTarFromURL w else None) of
             Some err \<Rightarrow>
               ([PutTarFromURL (goBootstrapURL buildConfig) ''go1.4'',
                 Log ''%s: failed to bootstrap buildlet: %s'' [bt, err]], ('''', False))
           | None \<Rightarrow>
               emit (if goBootstrapURL buildConfig \<noteq> ''''
                     then [PutTarFromURL (goBootstrapURL buildConfig) ''go1.4''] else [])
                 (case putTar w of
                    Some err \<Rightarrow>
                      ([PutTar archive ''go'',
                        Log ''%s: failed to upload change archive: %s'' [bt, err]], ('''', False))
                  | None \<Rightarrow>
                      emit [PutTar archive ''go'']
                        (case put w of
                           Some err \<Rightarrow>
                             ([Put (''devel '' @ revision) ''go/VERSION'' 420,
                               Log ''%s: failed to upload VERSION file: %s'' [bt, err]],
                              ('''', False))
                         | None \<Rightarrow>
                             emit [Put (''devel '' @ revision) ''go/VERSION'' 420]
                               (with_output t g w bt revision buildletName buildConfig)))))"

definition runTests ::
  "tester \<Rightarrow> globals \<Rightarrow> worker_env \<Rightarrow> string \<Rightarrow> string \<Rightarrow> bytes
   \<Rightarrow> wevent list \<times> (string \<times> bool)" where
  "runTests t g w bt revision archive =
     emit [Log ''%s: creating buildlet'' [bt], CreateBuildletWithStatus bt]
       (case createBuildlet w of
          Inl err \<Rightarrow> ([Log ''%s: failed to create buildlet: %s'' [bt, err]], ('''', False))
        | Inr buildletName \<Rightarrow>
            emit [Log ''%s: created buildlet (%s)'' [bt, buildletName]]
              (deferred (close_buildlet w bt buildletName)
                 (staged t g w bt revision archive buildletName)))"

section \<open>The live log sink\<close>

text \<open>
  \<^verbatim>\<open>gcsLiveWriter\<close>: a buffer under a mutex, a goroutine that uploads the whole buffer on
  every tick of a ticker and once more when it receives on \<open>stopCh\<close>, and two channels of
  capacity one. The state is that of the whole sink: the stored object, the buffer, the
  buffers of the two channels, where the flushing goroutine stands and where the call of
  \<^verbatim>\<open>Close\<close> stands. Every upload (the \<^verbatim>\<open>write\<close> closure) is recorded with what it sent and how
  it ended.
\<close>

datatype upload_kind = Initial | Periodic | Final

record upload =
  kind :: upload_kind
  content :: bytes
  outcome :: "error option"

text \<open>
  The flushing goroutine is at its \<^verbatim>\<open>select\<close>, or blocked in a send on \<open>errCh\<close> (of the final
  flush's outcome, or of a periodic flush's error); blocked, it holds the mutex.
\<close>

datatype flusher_pc = Selecting | SendingStop "error option" | SendingTick error

datatype closer_pc = NotCalled | Receiving | Returned "error option"

record sink =
  obj :: bytes
  buf :: bytes
  stopCh :: "bool list"
  errCh :: "error option list"
  flusher :: flusher_pc
  closer :: closer_pc
  uploads :: "upload list"

text \<open>
  The \<^verbatim>\<open>write\<close> closure on the buffer: a new object writer, the bytes, \<^verbatim>\<open>Close\<close>. The stored
  object is replaced when the writer's \<^verbatim>\<open>Close\<close> succeeds and left as it was otherwise.
\<close>

definition upload_buf :: "upload_kind \<Rightarrow> error option \<Rightarrow> sink \<Rightarrow> sink" where
  "upload_buf k r s =
     s\<lparr>obj := (if r = None then buf s else obj s),
       uploads := uploads s @ [\<lparr>kind = k, content = buf s, outcome = r\<rparr>]\<rparr>"

text \<open>
  \<^verbatim>\<open>newLiveWriter\<close>: the first upload, of no bytes, decides whether a sink is made; \<open>r\<close> is how
  that upload ends.
\<close>

definition newLiveWriter :: "error option \<Rightarrow> error + sink" where
  "newLiveWriter r =
     (case r of
        Some err \<Rightarrow> Inl err
      | None \<Rightarrow>
          Inr \<lparr>obj = [], buf = [], stopCh = [], errCh = [], flusher = Selecting,
               closer = NotCalled,
               uploads = [\<lparr>kind = Initial, content = [], outcome = None\<rparr>]\<rparr>)"

text \<open>
  What can happen next: a \<^verbatim>\<open>Write\<close> of some bytes; the ticker fires and the goroutine takes
  that case (the upload ending as given); the goroutine takes the \<open>stopCh\<close> case (the upload
  ending as given); a blocked send of the goroutine goes through; \<^verbatim>\<open>Close\<close> sends on
  \<open>stopCh\<close>; \<^verbatim>\<open>Close\<close> receives from \<open>errCh\<close> and returns.
\<close>

datatype sink_action =
  UserWrite bytes
| Tick "error option"
| Stop "error option"
| Unblock
| CloseSend
| CloseRecv

definition chan_cap :: nat where
  "chan_cap = 1"

text \<open>
  One step; \<open>None\<close> when the action is not possible in the state (a goroutine would block,
  or is not there). The goroutine uploads and sends with the mutex held, so a \<^verbatim>\<open>Write\<close> has
  to wait while the goroutine is blocked in a send.
\<close>

fun sink_step :: "sink_action \<Rightarrow> sink \<Rightarrow> sink option" where
  "sink_step (UserWrite b) s =
     (if flusher s = Selecting then Some (s\<lparr>buf := buf s @ b\<rparr>) else None)"
| "sink_step (Tick r) s =
     (if flusher s \<noteq> Selecting then None
      else (case r of
              None \<Rightarrow> Some (upload_buf Periodic r s)
            | Some err \<Rightarrow>
                if length (errCh s) < chan_cap
                then Some ((upload_buf Periodic r s)\<lparr>errCh := errCh s @ [Some err]\<rparr>)
                else Some ((upload_buf Periodic r s)\<lparr>flusher := SendingTick err\<rparr>)))"
| "sink_step (Stop r) s =
     (if flusher s \<noteq> Selecting \<or> stopCh s = [] then None
      else if length (errCh s) < chan_cap
      then Some ((upload_buf Final r s)\<lparr>stopCh := tl (stopCh s), errCh := errCh s @ [r]\<rparr>)
      else Some ((upload_buf Final r s)\<lparr>stopCh := tl (stopCh s), flusher := SendingStop r\<rparr>))"
| "sink_step Unblock s =
     (case flusher s of
        Selecting \<Rightarrow> None
      | SendingStop r \<Rightarrow>
          if length (errCh s) < chan_cap
          then Some (s\<lparr>errCh := errCh s @ [r], flusher := Selecting\<rparr>) else None
      | SendingTick err \<Rightarrow>
          if length (errCh s) < chan_cap
          then Some (s\<lparr>errCh := errCh s @ [Some err], flusher := Selecting\<rparr>) else None)"
| "sink_step CloseSend s =
     (if closer s = NotCalled \<and> length (stopCh s) < chan_cap
      then Some (s\<lparr>stopCh := stopCh s @ [True], closer := Receiving\<rparr>) else None)"
| "sink_step CloseRecv s =
     (if closer s = Receiving
      then (case errCh s of
              [] \<Rightarrow> None
            | e # es \<Rightarrow> Some (s\<lparr>errCh := es, closer := Returned e\<rparr>))
      else None)"

fun sink_run :: "sink_action list \<Rightarrow> sink \<Rightarrow> sink option" where
  "sink_run [] s = Some s"
| "sink_run (a # as) s =
     (case sink_step a s of None \<Rightarrow> None | Some s' \<Rightarrow> sink_run as s')"

text \<open>The sink that \<^verbatim>\<open>newLiveWriter\<close> returns when its first upload succeeds.\<close>

definition fresh_sink :: sink where
  "fresh_sink =
     \<lparr>obj = [], buf = [], stopCh = [], errCh = [], flusher = Selecting, closer = NotCalled,
      uploads = [\<lparr>kind = Initial, content = [], outcome = None\<rparr>]\<rparr>"

text \<open>The final flushes among the uploads.\<close>

definition finals :: "sink \<Rightarrow> upload list" where
  "finals s = filter (\<lambda>u. kind u = Final) (uploads s)"

section \<open>The fan-out dispatcher\<close>

text \<open>
  What happens at the sink of a run from its creation to the return of \<^verbatim>\<open>Exec\<close>: output of the
  test script arrives and \<^verbatim>\<open>Exec\<close> writes it to the sink, and the ticker of the sink fires
  (the upload ending as given).
\<close>

datatype exec_event = Output bytes | Ticked "error option"

text \<open>
  The sink while \<^verbatim>\<open>Exec\<close> runs. A \<^verbatim>\<open>Write\<close> of the output takes the mutex; when the flushing
  goroutine is blocked in its send on \<open>errCh\<close> it holds the mutex, and it holds it for ever,
  since only \<^verbatim>\<open>Close\<close> receives from \<open>errCh\<close> and \<^verbatim>\<open>Close\<close> is deferred until \<^verbatim>\<open>Exec\<close> has
  returned: then the \<^verbatim>\<open>Write\<close>, and \<^verbatim>\<open>Exec\<close> with it, never returns (\<open>None\<close>). A tick that
  finds the goroutine blocked is not taken.
\<close>

fun exec_sink :: "exec_event list \<Rightarrow> sink \<Rightarrow> sink option" where
  "exec_sink [] s = Some s"
| "exec_sink (Output b # evs) s =
     (case sink_step (UserWrite b) s of None \<Rightarrow> None | Some s' \<Rightarrow> exec_sink evs s')"
| "exec_sink (Ticked r # evs) s =
     (case sink_step (Tick r) s of None \<Rightarrow> exec_sink evs s | Some s' \<Rightarrow> exec_sink evs s')"

text \<open>A call of \<^verbatim>\<open>Exec\<close> whose output goes to a \<^verbatim>\<open>gcsLiveWriter\<close>.\<close>

fun gcs_exec :: "wevent \<Rightarrow> bool" where
  "gcs_exec (Exec c args env (GcsWriter b ob)) = True"
| "gcs_exec e = False"

text \<open>
  Whether a call of \<^verbatim>\<open>runTests\<close> returns, every call to the worker provider and to the
  storage returning: a run that gets as far as \<^verbatim>\<open>Exec\<close> with a \<^verbatim>\<open>gcsLiveWriter\<close> returns when
  no \<^verbatim>\<open>Write\<close> of the output blocks for ever; any other run returns.
\<close>

definition runTests_returns ::
  "tester \<Rightarrow> globals \<Rightarrow> worker_env \<Rightarrow> exec_event list \<Rightarrow> string \<Rightarrow> string \<Rightarrow> bytes \<Rightarrow> bool" where
  "runTests_returns t g w evs bt revision archive =
     (if list_ex gcs_exec (fst (runTests t g w bt revision archive))
      then exec_sink evs fresh_sink \<noteq> None else True)"

text \<open>
  \<^verbatim>\<open>run\<close> starts one goroutine for each builder type, waits on a \<^verbatim>\<open>sync.WaitGroup\<close> and then
  drains the channel the goroutines sent their results to. The state of that protocol: the
  iterations of the \<^verbatim>\<open>for\<close> loop still to come (each with its position in the list), the
  goroutines started and not finished, the counter of the wait group, and the buffer of the
  channel, whose capacity is the number of builder types.
\<close>

record run_state =
  to_launch :: "(nat \<times> string) list"
  running :: "(nat \<times> string) list"
  wg :: nat
  resultsCh :: "result list"

text \<open>
  The scheduler's choices: the main goroutine runs one more iteration of its loop, or the
  goroutine at some position among the running ones runs to its end.
\<close>

datatype sched_action = Launch | Finish nat

text \<open>
  The result that the goroutine of the \<open>i\<close>-th builder type sends when its \<^verbatim>\<open>runTests\<close>
  returns; it meets the worker environment \<open>wenv i\<close>.
\<close>

definition worker_result ::
  "tester \<Rightarrow> globals \<Rightarrow> (nat \<Rightarrow> worker_env) \<Rightarrow> string \<Rightarrow> bytes \<Rightarrow> nat \<times> string \<Rightarrow> result" where
  "worker_result t g wenv revision archive = (\<lambda>(i, bt).
     (case snd (runTests t g (wenv i) bt revision archive) of
        (log, ok) \<Rightarrow> \<lparr>builderType = bt, logURL = log, succeeded = ok\<rparr>))"

text \<open>
  The body of a goroutine: \<^verbatim>\<open>runTests\<close>, then the send of the result; \<open>None\<close> when
  \<^verbatim>\<open>runTests\<close> never returns, so that the send and \<^verbatim>\<open>wg.Done\<close> are never reached. The sink
  of the \<open>i\<close>-th run meets the events \<open>sinkev i\<close>.
\<close>

definition goroutine ::
  "tester \<Rightarrow> globals \<Rightarrow> (nat \<Rightarrow> worker_env) \<Rightarrow> (nat \<Rightarrow> exec_event list) \<Rightarrow> string \<Rightarrow> bytes
   \<Rightarrow> nat \<times> string \<Rightarrow> result option" where
  "goroutine t g wenv sinkev revision archive = (\<lambda>(i, bt).
     if runTests_returns t g (wenv i) (sinkev i) bt revision archive
     then Some (worker_result t g wenv revision archive (i, bt)) else None)"

text \<open>
  One step. A goroutine whose \<^verbatim>\<open>runTests\<close> never returns does not finish, a send on a full
  channel would block and \<^verbatim>\<open>wg.Done\<close> on a zero counter would panic: then the step is not
  possible (\<open>None\<close>).
\<close>

fun run_step ::
  "(nat \<times> string \<Rightarrow> result option) \<Rightarrow> nat \<Rightarrow> sched_action \<Rightarrow> run_state
   \<Rightarrow> run_state option" where
  "run_step job cap Launch s =
     (case to_launch s of
        [] \<Rightarrow> None
      | b # bs \<Rightarrow> Some (s\<lparr>to_launch := bs, running := running s @ [b], wg := wg s + 1\<rparr>))"
| "run_step job cap (Finish i) s =
     (if i < length (running s) \<and> length (resultsCh s) < cap \<and> 0 < wg s
      then (case job (running s ! i) of
              None \<Rightarrow> None
            | Some r \<Rightarrow>
                Some (s\<lparr>running := take i (running s) @ drop (Suc i) (running s),
                        resultsCh := resultsCh s @ [r],
                        wg := wg s - 1\<rparr>))
      else None)"

fun run_steps ::
  "(nat \<times> string \<Rightarrow> result option) \<Rightarrow> nat \<Rightarrow> sched_action list \<Rightarrow> run_state
   \<Rightarrow> run_state option" where
  "run_steps job cap [] s = Some s"
| "run_steps job cap (a # as) s =
     (case run_step job cap a s of None \<Rightarrow> None | Some s' \<Rightarrow> run_steps job cap as s')"

definition run_init :: "string list \<Rightarrow> run_state" where
  "run_init builders =
     \<lparr>to_launch = zip [0..<length builders] builders, running = [], wg = 0, resultsCh = []\<rparr>"

text \<open>\<^verbatim>\<open>wg.Wait()\<close> stands after the loop and returns once the counter is zero.\<close>

definition wait_returns :: "run_state \<Rightarrow> bool" where
  "wait_returns s \<longleftrightarrow> to_launch s = [] \<and> wg s = 0"

text \<open>
  \<^verbatim>\<open>run\<close> under a schedule: \<open>None\<close> when the schedule is not an execution of \<^verbatim>\<open>run\<close> up to
  its return (a step of it is not possible, or it ends before \<^verbatim>\<open>wg.Wait()\<close> can return).
\<close>

definition run ::
  "tester \<Rightarrow> http_world \<Rightarrow> globals \<Rightarrow> (nat \<Rightarrow> worker_env) \<Rightarrow> (nat \<Rightarrow> exec_event list)
   \<Rightarrow> sched_action list \<Rightarrow> string \<Rightarrow> string list \<Rightarrow> (run_error + result list) option" where
  "run t h g wenv sinkev sched revision builders =
     (case snd (getTar t h revision) of
        Inl err \<Rightarrow> Some (Inl (ArchiveError err))
      | Inr archive \<Rightarrow>
          (case run_steps (goroutine t g wenv sinkev revision archive) (length builders) sched
                  (run_init builders) of
             None \<Rightarrow> None
           | Some s \<Rightarrow> if wait_returns s then Some (Inr (resultsCh s)) else None))"

text \<open>The schedule that starts every goroutine and lets them finish in the order of the list.\<close>

definition in_order :: "nat \<Rightarrow> sched_action list" where
  "in_order n = replicate n Launch @ replicate n (Finish 0)"

section \<open>The scheduling loop\<close>

record flags =
  sourceURL :: string
  repoName :: string
  gcsFlag :: string
  revisionFlag :: string
  buildersStr :: string

text \<open>
  What the process meets when it starts: the errors of \<^verbatim>\<open>google.FindDefaultCredentials\<close>,
  \<^verbatim>\<open>storage.NewClient\<close> and \<^verbatim>\<open>iapclient.GRPCClient\<close>.
\<close>

record startup =
  findDefaultCredentials :: "error option"
  storageNewClient :: "error option"
  grpcClient :: "error option"

text \<open>
  What one candidate change meets in poll mode: the errors of the two comments and what
  \<^verbatim>\<open>run\<close> returns; and what one tick of the ticker meets: the answer to \<^verbatim>\<open>findChanges\<close>.
\<close>

record change_env =
  candidate :: change_info
  beginningErr :: "error option"
  runResult :: "run_error + result list"
  resultsErr :: "error option"

type_synonym tick_env = "error + change_env list"

text \<open>The calls of \<^verbatim>\<open>main\<close> to the review system and to the dispatcher, in order.\<close>

datatype main_event =
  Gerrit gerrit_call
| RunCall string "string list"

datatype exit_status = Exited | FatalExit fatal | Ticking

definition findChanges_query :: "string \<Rightarrow> string" where
  "findChanges_query r =
     ''project:'' @ r
       @ '' status:open label:Run-TryBot+1 -label:TryBot-Result-1 -label:TryBot-Result+1''"

text \<open>The loop over the changes of one tick; \<open>None\<close> when it came to its end.\<close>

fun test_changes :: "string list \<Rightarrow> change_env list \<Rightarrow> main_event list \<times> fatal option" where
  "test_changes builders [] = ([], None)"
| "test_changes builders (c # cs) =
     (case commentBeginning (\<lambda>_ _ _. beginningErr c) (candidate c) of
        (calls1, Some err) \<Rightarrow>
          (map Gerrit calls1, Some (Fatal ''commentBeginning failed: %v'' [err]))
      | (calls1, None) \<Rightarrow>
          (case runResult c of
             Inl err \<Rightarrow>
               (map Gerrit calls1 @ [RunCall (currentRevision (candidate c)) builders],
                Some (FatalErr ''run failed: %v'' err))
           | Inr results \<Rightarrow>
               (case commentResults (\<lambda>_ _ _. resultsErr c) (candidate c) results of
                  (calls2, Some err) \<Rightarrow>
                    (map Gerrit calls1 @ [RunCall (currentRevision (candidate c)) builders]
                       @ map Gerrit calls2,
                     Some (Fatal ''commentResults failed: %v'' [err]))
                | (calls2, None) \<Rightarrow>
                    (case test_changes builders cs of
                       (evs, r) \<Rightarrow>
                         (map Gerrit calls1 @ [RunCall (currentRevision (candidate c)) builders]
                            @ map Gerrit calls2 @ evs, r)))))"

text \<open>
  Poll mode over the ticks the ticker has delivered so far; the loop itself has no end, so
  with the ticks used up the process is still \<open>Ticking\<close>.
\<close>

fun poll :: "string \<Rightarrow> string list \<Rightarrow> tick_env list \<Rightarrow> main_event list \<times> exit_status" where
  "poll r builders [] = ([], Ticking)"
| "poll r builders (tick # ticks) =
     (case tick of
        Inl err \<Rightarrow>
          ([Gerrit (QueryChanges (findChanges_query r))],
           FatalExit (Fatal ''findChanges failed: %v'' [err]))
      | Inr changes \<Rightarrow>
          (case test_changes builders changes of
             (evs, Some f) \<Rightarrow> (Gerrit (QueryChanges (findChanges_query r)) # evs, FatalExit f)
           | (evs, None) \<Rightarrow>
               (case poll r builders ticks of
                  (evs', st) \<Rightarrow> (Gerrit (QueryChanges (findChanges_query r)) # evs @ evs', st))))"

text \<open>
  \<^verbatim>\<open>main\<close>. \<open>oneshot\<close> is what \<^verbatim>\<open>run\<close> returns when it is called with the revision of the
  \<^verbatim>\<open>-revision\<close> flag.
\<close>

definition main ::
  "flags \<Rightarrow> startup \<Rightarrow> run_error + result list \<Rightarrow> tick_env list
   \<Rightarrow> main_event list \<times> exit_status" where
  "main f st oneshot ticks =
     (case findDefaultCredentials st of
        Some err \<Rightarrow> ([], FatalExit (Fatal ''reading GCP credentials: %v'' [err]))
      | None \<Rightarrow>
          (case select_builders (buildersStr f) of
             Inl ft \<Rightarrow> ([], FatalExit ft)
           | Inr builders \<Rightarrow>
               (case (if gcsFlag f \<noteq> '''' then storageNewClient st else None) of
                  Some err \<Rightarrow> ([], FatalExit (Fatal ''Could not connect to GCS: %v'' [err]))
                | None \<Rightarrow>
                    (case grpcClient st of
                       Some err \<Rightarrow>
                         ([], FatalExit (Fatal ''Could not connect to coordinator: %v'' [err]))
                     | None \<Rightarrow>
                         if revisionFlag f \<noteq> '''' then
                           (case oneshot of
                              Inl err \<Rightarrow>
                                ([RunCall (revisionFlag f) builders],
                                 FatalExit (FatalErr ''%v'' err))
                            | Inr results \<Rightarrow> ([RunCall (revisionFlag f) builders], Exited))
                         else poll (repoName f) builders ticks))))"

section \<open>Vocabulary of the claims\<close>

text \<open>The marker and the text that \<^verbatim>\<open>commentResults\<close> writes to the tab writer for one result.\<close>

definition row_marker :: "result \<Rightarrow> string" where
  "row_marker res = (if succeeded res then ''pass'' else ''failed'')"

definition written_row :: "result \<Rightarrow> string" where
  "written_row res =
     ''    '' @ builderType res @ [tab] @ ''['' @ row_marker res @ '']'' @ [tab]
       @ logURL res @ [newline]"

text \<open>
  Text on which the model of the tab writer is the library: ASCII, with no tab, newline,
  vertical tab or form feed in it.
\<close>

definition plain :: "string \<Rightarrow> bool" where
  "plain s \<longleftrightarrow>
     (\<forall>c \<in> set s. (of_char c :: nat) < 128 \<and> c \<noteq> tab \<and> c \<noteq> newline
                    \<and> c \<noteq> CHR 0x0B \<and> c \<noteq> CHR 0x0C)"

text \<open>
  The cells of a row: the indented builder type and the bracketed marker (the third cell is
  the log locator); the row as the tab writer buffers it and as it is written to it.
\<close>

definition name_cell :: "result \<Rightarrow> string" where
  "name_cell res = ''    '' @ builderType res"

definition marker_cell :: "result \<Rightarrow> string" where
  "marker_cell res = ''['' @ row_marker res @ '']''"

definition line3 :: "result \<Rightarrow> tw_line" where
  "line3 res = ([name_cell res, marker_cell res, logURL res], True)"

definition row_text :: "result \<Rightarrow> string" where
  "row_text r = name_cell r @ tab # marker_cell r @ tab # logURL r"

text \<open>A cell padded to a width, the width of a column of cells, and a row of the table.\<close>

definition padded :: "nat \<Rightarrow> string \<Rightarrow> string" where
  "padded w c = c @ replicate (w - length c) CHR '' ''"

definition col_width :: "string list \<Rightarrow> nat" where
  "col_width cells = foldl max 0 (map (\<lambda>c. length c + 1) cells)"

definition table_row :: "nat \<Rightarrow> nat \<Rightarrow> result \<Rightarrow> string" where
  "table_row w0 w1 res =
     padded w0 (name_cell res) @ padded w1 (marker_cell res) @ logURL res @ [newline]"

text \<open>The table of the final report, as the tab writer lays it out.\<close>

definition table :: "result list \<Rightarrow> string" where
  "table results = tabwriter (concat (map written_row results))"

text \<open>The calls among the events of a worker run: everything but the log lines.\<close>

fun is_log :: "wevent \<Rightarrow> bool" where
  "is_log (Log fm args) = True"
| "is_log e = False"

definition calls :: "wevent list \<Rightarrow> wevent list" where
  "calls evs = filter (\<lambda>e. \<not> is_log e) evs"

text \<open>
  The results a state of the dispatcher accounts for: those sent, and those still to come
  from the goroutines that run or are yet to be started; and what holds of the counter of
  the wait group and of the room in the channel in every state \<^verbatim>\<open>run\<close> reaches.
\<close>

definition accounted :: "(nat \<times> string \<Rightarrow> result) \<Rightarrow> run_state \<Rightarrow> result multiset" where
  "accounted res s =
     mset (resultsCh s) + mset (map res (running s)) + mset (map res (to_launch s))"

definition run_inv :: "nat \<Rightarrow> run_state \<Rightarrow> bool" where
  "run_inv cap s \<longleftrightarrow>
     wg s = length (running s)
     \<and> length (resultsCh s) + length (running s) + length (to_launch s) = cap"

text \<open>The calls of \<^verbatim>\<open>main\<close> to the review system, and its calls of \<^verbatim>\<open>run\<close>.\<close>

fun is_gerrit :: "main_event \<Rightarrow> bool" where
  "is_gerrit (Gerrit c) = True"
| "is_gerrit (RunCall r bs) = False"

definition gerrit_calls :: "main_event list \<Rightarrow> main_event list" where
  "gerrit_calls evs = filter is_gerrit evs"

definition run_calls :: "main_event list \<Rightarrow> main_event list" where
  "run_calls evs = filter (\<lambda>e. \<not> is_gerrit e) evs"

text \<open>The start of the process got as far as the choice of the mode.\<close>

definition started :: "flags \<Rightarrow> startup \<Rightarrow> string list \<Rightarrow> bool" where
  "started f st builders \<longleftrightarrow>
     findDefaultCredentials st = None \<and> select_builders (buildersStr f) = Inr builders
     \<and> (if gcsFlag f \<noteq> '''' then storageNewClient st else None) = None
     \<and> grpcClient st = None"

text \<open>
  Schedules of a sink in which no periodic flush fails and nothing is written once
  \<^verbatim>\<open>Close\<close> has been called.
\<close>

fun is_write :: "sink_action \<Rightarrow> bool" where
  "is_write (UserWrite b) = True"
| "is_write a = False"

fun failed_tick :: "sink_action \<Rightarrow> bool" where
  "failed_tick (Tick (Some err)) = True"
| "failed_tick a = False"

definition ticks_succeed :: "sink_action list \<Rightarrow> bool" where
  "ticks_succeed acts \<longleftrightarrow> \<not> list_ex failed_tick acts"

definition no_write_after_close :: "sink_action list \<Rightarrow> bool" where
  "no_write_after_close acts \<longleftrightarrow>
     \<not> list_ex is_write (dropWhile (\<lambda>a. a \<noteq> CloseSend) acts)"

text \<open>
  The final flush has been made, once, of the whole buffer, and ended as \<open>r\<close>; and what
  holds of a sink in every state it reaches under such a schedule.
\<close>

definition flushed :: "sink \<Rightarrow> error option \<Rightarrow> bool" where
  "flushed s r \<longleftrightarrow>
     finals s = [\<lparr>kind = Final, content = buf s, outcome = r\<rparr>]
     \<and> (r = None \<longrightarrow> obj s = buf s)"

definition sink_inv :: "sink \<Rightarrow> bool" where
  "sink_inv s \<longleftrightarrow>
     flusher s = Selecting \<and>
     (case closer s of
        NotCalled \<Rightarrow> stopCh s = [] \<and> errCh s = [] \<and> finals s = []
      | Receiving \<Rightarrow>
          (stopCh s = [True] \<and> errCh s = [] \<and> finals s = [])
          \<or> (\<exists>r. stopCh s = [] \<and> errCh s = [r] \<and> flushed s r)
      | Returned r \<Rightarrow> stopCh s = [] \<and> errCh s = [] \<and> flushed s r)"

text \<open>
  What holds of a sink in every state it reaches, under any schedule: \<open>stopCh\<close> is empty
  until \<^verbatim>\<open>Close\<close> is called, and until \<^verbatim>\<open>Close\<close> returns a blocked goroutine means a full
  \<open>errCh\<close> and a \<^verbatim>\<open>Close\<close> that waits has something to receive or the goroutine has the stop
  signal to take.
\<close>

definition sink_live :: "sink \<Rightarrow> bool" where
  "sink_live s \<longleftrightarrow>
     (closer s = NotCalled \<longrightarrow> stopCh s = [])
     \<and> ((\<forall>r. closer s \<noteq> Returned r) \<and> flusher s \<noteq> Selecting \<longrightarrow> errCh s \<noteq> [])
     \<and> (closer s = Receiving \<longrightarrow> errCh s \<noteq> [] \<or> stopCh s \<noteq> [])"

section \<open>Concrete inputs\<close>

definition demo_tester :: tester where
  "demo_tester =
     \<lparr>source = ''https://team.googlesource.com'', repo = ''golang/go-private'', gcs = True\<rparr>"

text \<open>
  An archive server that answers every request with the given status code and body, and a
  gzip check that looks at the two magic bytes.
\<close>

definition demo_http :: "nat \<Rightarrow> bytes \<Rightarrow> http_world" where
  "demo_http code payload =
     \<lparr>newRequest = (\<lambda>m u. None),
      doRequest = (\<lambda>m u. Inr \<lparr>statusCode = code, status = ''status'', body = Inr payload\<rparr>),
      gzipNewReader =
        (\<lambda>b. if take 2 b = [CHR 0x1F, CHR 0x8B] then None else Some ''gzip: invalid header'')\<rparr>"

definition demo_config :: build_config where
  "demo_config =
     \<lparr>goBootstrapURL = ''https://storage.googleapis.com/go1.4.tar.gz'', configEnv = [],
      gorootFinal = ''/usr/local/go'', allScript = ''src/all.bash'', allScriptArgs = []\<rparr>"

definition demo_globals :: globals where
  "demo_globals =
     \<lparr>gcsBucket = ''logs'',
      dashboardBuilders = [''linux-amd64'' \<mapsto> demo_config, ''darwin-arm64-12'' \<mapsto> demo_config],
      pathJoin = (\<lambda>a b. a @ ''/'' @ b)\<rparr>"

text \<open>A worker provider on which every call succeeds and the tests pass, and variations.\<close>

definition good_worker :: worker_env where
  "good_worker =
     \<lparr>createBuildlet = Inr ''buildlet-1'', putTarFromURL = None, putTar = None, put = None,
      randSuffix = [CHR 0x01, CHR 0x02, CHR 0x03, CHR 0xFF], liveWriterErr = None,
      liveWriterCloseErr = None, workDir = Inr ''/workdir'', exec = (None, None),
      buildletClose = None\<rparr>"

definition no_worker :: worker_env where
  "no_worker = good_worker\<lparr>createBuildlet := Inl ''no capacity''\<rparr>"

definition failing_tests :: worker_env where
  "failing_tests = good_worker\<lparr>exec := (Some ''exit status 1'', None)\<rparr>"

text \<open>Three bytes that start like a gzip stream, and workers of which the first fails its tests.\<close>

definition gz :: bytes where
  "gz = [CHR 0x1F, CHR 0x8B, CHR 0x08]"

definition demo_wenv :: "nat \<Rightarrow> worker_env" where
  "demo_wenv i = (if i = 0 then failing_tests else good_worker)"

text \<open>
  What a sink meets while \<^verbatim>\<open>Exec\<close> runs: output, two periodic flushes that fail, output
  again.
\<close>

definition stuck_output :: "exec_event list" where
  "stuck_output = [Output ''a'', Ticked (Some ''e1''), Ticked (Some ''e2''), Output ''b'']"

definition good_start :: startup where
  "good_start =
     \<lparr>findDefaultCredentials = None, storageNewClient = None, grpcClient = None\<rparr>"

definition demo_flags :: flags where
  "demo_flags =
     \<lparr>sourceURL = ''https://team.googlesource.com'', repoName = ''golang/go-private'',
      gcsFlag = ''logs'', revisionFlag = ''abc123'',
      buildersStr = ''linux-amd64,darwin-arm64-12''\<rparr>"

definition result_A :: "bool \<Rightarrow> result" where
  "result_A ok = \<lparr>builderType = ''linux-amd64'', logURL = ''u'', succeeded = ok\<rparr>"

definition result_B :: "bool \<Rightarrow> result" where
  "result_B ok = \<lparr>builderType = ''darwin-arm64-12'', logURL = ''v'', succeeded = ok\<rparr>"

section \<open>The result reporter: state, label and the empty report\<close>

lemma results_loop_eq:
  "results_loop rs (state, label, out) =
     (if \<forall>r \<in> set rs. succeeded r then state else ''failed'',
      if \<forall>r \<in> set rs. succeeded r then label else - 1,
      out @ concat (map written_row rs))"
  by (induction rs arbitrary: state label out)
     (auto simp: written_row_def row_marker_def Let_def)

lemma tabwriter_Nil: "tabwriter [] = []"
  by (simp add: tabwriter_def tw_lines_def final_line_def in_column_def writeLine_def)

text \<open>
  Claim C3. The review that \<^verbatim>\<open>commentResults\<close> posts carries the label \<open>TryBot-Result\<close> with
  value +1 and the state \<open>succeeded\<close> when every result succeeded, and the value -1 and the
  state \<open>failed\<close> when some result did not; both are functions of the results alone.
\<close>

theorem aggregate_state_label:
  "fst (commentResults setReview ch results) =
     [SetReview (changeID ch) (currentRevision ch) (report results)]
   \<and> labels (report results) =
     [(''TryBot-Result'', if \<forall>r \<in> set results. succeeded r then 1 else - 1)]
   \<and> message (report results) =
     ''Tests '' @ (if \<forall>r \<in> set results. succeeded r then ''succeeded'' else ''failed'')
       @ [newline] @ tabwriter (concat (map written_row results))"
  by (simp add: commentResults_def report_def results_loop_eq)

theorem aggregate_state_label_witness:
  "labels (report [result_A True, result_B True]) = [(''TryBot-Result'', 1)]
   \<and> take 15 (message (report [result_A True, result_B True])) = ''Tests succeeded''
   \<and> labels (report [result_A True, result_B False]) = [(''TryBot-Result'', - 1)]
   \<and> take 12 (message (report [result_A True, result_B False])) = ''Tests failed''"
  using aggregate_state_label [of _ _ "[result_A True, result_B True]"]
    aggregate_state_label [of _ _ "[result_A True, result_B False]"]
  by (simp add: result_A_def result_B_def)

text \<open>
  Claim C9. With no results, \<^verbatim>\<open>commentResults\<close> posts the comment \<open>Tests succeeded\<close> with an
  empty table and sets the label \<open>TryBot-Result\<close> to +1.
\<close>

theorem empty_report:
  "commentResults setReview ch [] =
     ([SetReview (changeID ch) (currentRevision ch)
        \<lparr>message = ''Tests succeeded'' @ [newline], labels = [(''TryBot-Result'', 1)]\<rparr>],
      setReview (changeID ch) (currentRevision ch)
        \<lparr>message = ''Tests succeeded'' @ [newline], labels = [(''TryBot-Result'', 1)]\<rparr>)"
  by (simp add: commentResults_def report_def tabwriter_Nil split: option.splits)

section \<open>Builder selection: the allow-list\<close>

lemma check_builders_ok:
  "\<forall>b \<in> set bs. allowed b \<Longrightarrow> check_builders bs acc = Inr (acc @ bs)"
  by (induction bs arbitrary: acc) auto

lemma check_builders_bad:
  "\<exists>b \<in> set bs. \<not> allowed b \<Longrightarrow>
   \<exists>b \<in> set bs. \<not> allowed b
      \<and> check_builders bs acc = Inl (Fatal ''builder type %q not allowed'' [b])"
  by (induction bs arbitrary: acc) auto

lemma allowed_iff:
  "allowed b \<longleftrightarrow> b \<in> {''js-wasm'', ''linux-386'', ''linux-386-longtest'', ''linux-amd64'',
     ''linux-amd64-longtest'', ''linux-amd64-bullseye'', ''darwin-amd64-12_0'',
     ''darwin-arm64-12'', ''windows-386-2012'', ''windows-amd64-2016'', ''windows-arm64-11''}"
  by (simp add: allowed_def allowedBuilders_def)

text \<open>
  Claim C10. A non-empty \<^verbatim>\<open>-builders\<close> flag is split at its commas and every piece has to be
  in \<^verbatim>\<open>allowedBuilders\<close>, or the process exits fatally on a piece that is not; an empty flag
  selects \<^verbatim>\<open>firstClassBuilders\<close> with no check, and that list holds \<open>linux-arm-aws\<close>,
  \<open>linux-arm64-aws\<close> and \<open>windows-amd64-longtest\<close>, none of which is allowed.
\<close>

theorem allow_list_only_for_flag:
  "(str \<noteq> [] \<longrightarrow>
      (if \<forall>b \<in> set (split_on CHR '','' str). allowed b
       then select_builders str = Inr (split_on CHR '','' str)
       else \<exists>b \<in> set (split_on CHR '','' str). \<not> allowed b
              \<and> select_builders str = Inl (Fatal ''builder type %q not allowed'' [b])))
   \<and> select_builders [] = Inr firstClassBuilders
   \<and> {''linux-arm-aws'', ''linux-arm64-aws'', ''windows-amd64-longtest''}
        \<subseteq> set firstClassBuilders
   \<and> \<not> allowed ''linux-arm-aws'' \<and> \<not> allowed ''linux-arm64-aws''
   \<and> \<not> allowed ''windows-amd64-longtest''"
proof -
  have a: "select_builders [] = Inr firstClassBuilders"
    by (simp add: select_builders_def)
  have b: "{''linux-arm-aws'', ''linux-arm64-aws'', ''windows-amd64-longtest''}
        \<subseteq> set firstClassBuilders"
    by (simp add: firstClassBuilders_def)
  have c: "\<not> allowed ''linux-arm-aws'' \<and> \<not> allowed ''linux-arm64-aws''
   \<and> \<not> allowed ''windows-amd64-longtest''"
    by (simp add: allowed_iff)
  have d: "str \<noteq> [] \<longrightarrow>
      (if \<forall>b \<in> set (split_on CHR '','' str). allowed b
       then select_builders str = Inr (split_on CHR '','' str)
       else \<exists>b \<in> set (split_on CHR '','' str). \<not> allowed b
              \<and> select_builders str = Inl (Fatal ''builder type %q not allowed'' [b]))"
    using check_builders_ok [of "split_on CHR '','' str" "[]"]
      check_builders_bad [of "split_on CHR '','' str" "[]"]
    by (simp add: select_builders_def)
  from a b c d show ?thesis by blast
qed

theorem allow_list_only_for_flag_witness:
  "select_builders ''linux-amd64,darwin-arm64-12'' = Inr [''linux-amd64'', ''darwin-arm64-12'']
   \<and> select_builders ''linux-amd64,linux-arm-aws''
       = Inl (Fatal ''builder type %q not allowed'' [''linux-arm-aws''])"
  using allow_list_only_for_flag [of "''linux-amd64,darwin-arm64-12''"]
    allow_list_only_for_flag [of "''linux-amd64,linux-arm-aws''"]
  by (simp add: allowed_iff)

section \<open>The archive fetcher: outcomes\<close>

text \<open>
  Claim C5. \<^verbatim>\<open>getTar\<close> sends at most one request. When the server answers: a status other
  than 200 gives the fetch error with the URL and the status, and no bytes; a 200 whose body
  the gzip reader refuses gives the gzip reader's error, which is another error than the
  fetch error; a 200 whose body the gzip reader accepts gives the bytes of the body.
\<close>

theorem getTar_outcomes:
  "length (fst (getTar t h revision)) \<le> 1
   \<and> (newRequest h ''GET'' (tarURL t revision) = None
        \<and> doRequest h ''GET'' (tarURL t revision) = Inr resp \<longrightarrow>
        fst (getTar t h revision) = [HttpDo ''GET'' (tarURL t revision)]
        \<and> (statusCode resp \<noteq> 200 \<longrightarrow>
             snd (getTar t h revision) = Inl (BadStatus (tarURL t revision) (status resp)))
        \<and> (statusCode resp = 200 \<and> body resp = Inr archive \<longrightarrow>
             snd (getTar t h revision) =
               (case gzipNewReader h archive of
                  Some err \<Rightarrow> Inl (NotGzip err)
                | None \<Rightarrow> Inr archive)))
   \<and> NotGzip err \<noteq> BadStatus url st"
  by (auto simp: getTar_def http_StatusOK_def split: option.splits sum.splits)

theorem getTar_outcomes_witness:
  "snd (getTar demo_tester (demo_http 404 ''<html>'') ''abc123'')
     = Inl (BadStatus ''https://team.googlesource.com/golang/go-private/+archive/abc123.tar.gz''
              ''status'')
   \<and> snd (getTar demo_tester (demo_http 200 ''<html>'') ''abc123'')
     = Inl (NotGzip ''gzip: invalid header'')
   \<and> snd (getTar demo_tester (demo_http 200 [CHR 0x1F, CHR 0x8B, CHR 0x08]) ''abc123'')
     = Inr [CHR 0x1F, CHR 0x8B, CHR 0x08]
   \<and> newRequest (demo_http 404 ''<html>'') ''GET'' (tarURL demo_tester ''abc123'') = None
   \<and> doRequest (demo_http 404 ''<html>'') ''GET'' (tarURL demo_tester ''abc123'')
       = Inr \<lparr>statusCode = 404, status = ''status'', body = Inr ''<html>''\<rparr>"
  using getTar_outcomes [of demo_tester "demo_http 404 ''<html>''" "''abc123''"
          "\<lparr>statusCode = 404, status = ''status'', body = Inr ''<html>''\<rparr>"]
    getTar_outcomes [of demo_tester "demo_http 200 ''<html>''" "''abc123''"
          "\<lparr>statusCode = 200, status = ''status'', body = Inr ''<html>''\<rparr>" "''<html>''"]
    getTar_outcomes [of demo_tester "demo_http 200 [CHR 0x1F, CHR 0x8B, CHR 0x08]" "''abc123''"
          "\<lparr>statusCode = 200, status = ''status'', body = Inr [CHR 0x1F, CHR 0x8B, CHR 0x08]\<rparr>"
          "[CHR 0x1F, CHR 0x8B, CHR 0x08]"]
  by (simp add: demo_tester_def demo_http_def tarURL_def)

section \<open>One worker run: teardown\<close>

lemma calls_append [simp]: "calls (xs @ ys) = calls xs @ calls ys"
  by (simp add: calls_def)

lemma calls_Cons_Log [simp]: "calls (Log fm args # xs) = calls xs"
  by (simp add: calls_def)

lemma calls_Cons_call [simp]: "\<not> is_log e \<Longrightarrow> calls (e # xs) = e # calls xs"
  by (simp add: calls_def)

lemma calls_Nil [simp]: "calls [] = []"
  by (simp add: calls_def)

lemma emit_simps [simp]: "fst (emit evs k) = evs @ fst k" "snd (emit evs k) = snd k"
  by (simp_all add: emit_def)

lemma deferred_simps [simp]: "fst (deferred evs k) = fst k @ evs" "snd (deferred evs k) = snd k"
  by (simp_all add: deferred_def)

lemma run_all_no_close:
  "BuildletClose \<notin> set (fst (run_all w bt cfg url out))"
  by (auto simp: run_all_def split: sum.splits option.splits prod.splits)

lemma with_output_no_close:
  "BuildletClose \<notin> set (fst (with_output t g w bt revision name cfg))"
  using run_all_no_close
  by (auto simp: with_output_def close_live_writer_def Let_def split: option.splits)

lemma staged_no_close:
  "BuildletClose \<notin> set (fst (staged t g w bt revision archive name))"
  using with_output_no_close
  by (auto simp: staged_def split: option.splits)

lemma calls_close_buildlet: "calls (close_buildlet w bt name) = [BuildletClose]"
  by (simp add: close_buildlet_def calls_def split: option.splits)

lemma count_close_buildlet: "count_list (close_buildlet w bt name) BuildletClose = 1"
  by (simp add: close_buildlet_def split: option.splits)

text \<open>
  Claim C2. In a run of \<^verbatim>\<open>runTests\<close> whose worker was created, \<^verbatim>\<open>Close\<close> is called on the
  worker exactly once, as the last call of the run, whatever else succeeds or fails in it;
  in a run whose worker was not created, the only call is the creation, \<^verbatim>\<open>Close\<close> is not
  called, and the run has failed with an empty log locator.
\<close>

theorem teardown_exactly_once:
  "(createBuildlet w = Inr name \<longrightarrow>
      count_list (fst (runTests t g w bt revision archive)) BuildletClose = 1
      \<and> last (calls (fst (runTests t g w bt revision archive))) = BuildletClose)
   \<and> (createBuildlet w = Inl err \<longrightarrow>
      count_list (fst (runTests t g w bt revision archive)) BuildletClose = 0
      \<and> calls (fst (runTests t g w bt revision archive)) = [CreateBuildletWithStatus bt]
      \<and> snd (runTests t g w bt revision archive) = ('''', False))"
proof (intro conjI impI)
  assume c: "createBuildlet w = Inr name"
  have tr: "fst (runTests t g w bt revision archive) =
      [Log ''%s: creating buildlet'' [bt], CreateBuildletWithStatus bt,
       Log ''%s: created buildlet (%s)'' [bt, name]]
      @ fst (staged t g w bt revision archive name) @ close_buildlet w bt name"
    using c by (simp add: runTests_def)
  show "count_list (fst (runTests t g w bt revision archive)) BuildletClose = 1"
    unfolding tr using staged_no_close [of t g w bt revision archive name]
    by (simp add: count_close_buildlet)
  show "last (calls (fst (runTests t g w bt revision archive))) = BuildletClose"
    unfolding tr by (simp add: calls_close_buildlet)
next
  assume c: "createBuildlet w = Inl err"
  have tr: "runTests t g w bt revision archive =
      ([Log ''%s: creating buildlet'' [bt], CreateBuildletWithStatus bt,
        Log ''%s: failed to create buildlet: %s'' [bt, err]], ('''', False))"
    using c by (simp add: runTests_def emit_def)
  show "count_list (fst (runTests t g w bt revision archive)) BuildletClose = 0"
    unfolding tr by simp
  show "calls (fst (runTests t g w bt revision archive)) = [CreateBuildletWithStatus bt]"
    unfolding tr by simp
  show "snd (runTests t g w bt revision archive) = ('''', False)"
    unfolding tr by simp
qed

theorem teardown_exactly_once_witness:
  "count_list
     (fst (runTests demo_tester demo_globals failing_tests ''linux-amd64'' ''abc123'' ''tar''))
     BuildletClose = 1
   \<and> count_list
     (fst (runTests demo_tester demo_globals good_worker ''plan9-386'' ''abc123'' ''tar''))
     BuildletClose = 1
   \<and> count_list
     (fst (runTests demo_tester demo_globals no_worker ''linux-amd64'' ''abc123'' ''tar''))
     BuildletClose = 0
   \<and> snd (runTests demo_tester demo_globals no_worker ''linux-amd64'' ''abc123'' ''tar'')
     = ('''', False)
   \<and> count_list
     (fst (runTests demo_tester demo_globals (good_worker\<lparr>putTarFromURL := Some ''e''\<rparr>)
             ''linux-amd64'' ''abc123'' ''tar''))
     BuildletClose = 1
   \<and> count_list
     (fst (runTests demo_tester demo_globals (good_worker\<lparr>putTar := Some ''e''\<rparr>)
             ''linux-amd64'' ''abc123'' ''tar''))
     BuildletClose = 1
   \<and> count_list
     (fst (runTests demo_tester demo_globals (good_worker\<lparr>put := Some ''e''\<rparr>)
             ''linux-amd64'' ''abc123'' ''tar''))
     BuildletClose = 1
   \<and> count_list
     (fst (runTests demo_tester demo_globals (good_worker\<lparr>liveWriterErr := Some ''e''\<rparr>)
             ''linux-amd64'' ''abc123'' ''tar''))
     BuildletClose = 1
   \<and> count_list
     (fst (runTests demo_tester demo_globals (good_worker\<lparr>workDir := Inl ''e''\<rparr>)
             ''linux-amd64'' ''abc123'' ''tar''))
     BuildletClose = 1
   \<and> count_list
     (fst (runTests demo_tester demo_globals (good_worker\<lparr>exec := (None, Some ''e'')\<rparr>)
             ''linux-amd64'' ''abc123'' ''tar''))
     BuildletClose = 1
   \<and> createBuildlet failing_tests = Inr ''buildlet-1''
   \<and> createBuildlet good_worker = Inr ''buildlet-1''
   \<and> createBuildlet no_worker = Inl ''no capacity''"
  using teardown_exactly_once [where w = failing_tests and name = "''buildlet-1''"
      and t = demo_tester and g = demo_globals and bt = "''linux-amd64''"
      and revision = "''abc123''" and archive = "''tar''"]
    teardown_exactly_once [where w = good_worker and name = "''buildlet-1''"
      and t = demo_tester and g = demo_globals and bt = "''plan9-386''"
      and revision = "''abc123''" and archive = "''tar''"]
    teardown_exactly_once [where w = no_worker and err = "''no capacity''"
      and t = demo_tester and g = demo_globals and bt = "''linux-amd64''"
      and revision = "''abc123''" and archive = "''tar''"]
  by (simp add: failing_tests_def good_worker_def no_worker_def runTests_def staged_def
      with_output_def run_all_def close_buildlet_def close_live_writer_def demo_globals_def
      demo_config_def demo_tester_def Let_def)

section \<open>The scheduling loop: one-shot mode\<close>

text \<open>
  Claim C8. With a non-empty \<^verbatim>\<open>-revision\<close> flag, \<^verbatim>\<open>main\<close> makes no call to the review system
  (no query, no comment, no label), calls \<^verbatim>\<open>run\<close> at most once and does not enter the polling
  loop; when its start got as far as the choice of the mode, it calls \<^verbatim>\<open>run\<close> exactly once,
  with that revision and the selected builder list, and then exits (fatally when \<^verbatim>\<open>run\<close>
  returned an error); when its start failed, it has exited fatally without calling \<^verbatim>\<open>run\<close>.
\<close>

theorem one_shot_mode:
  "revisionFlag f \<noteq> '''' \<longrightarrow>
     gerrit_calls (fst (main f st oneshot ticks)) = []
     \<and> length (run_calls (fst (main f st oneshot ticks))) \<le> 1
     \<and> snd (main f st oneshot ticks) \<noteq> Ticking
     \<and> (started f st builders \<longrightarrow>
          fst (main f st oneshot ticks) = [RunCall (revisionFlag f) builders]
          \<and> snd (main f st oneshot ticks) =
              (case oneshot of
                 Inl err \<Rightarrow> FatalExit (FatalErr ''%v'' err)
               | Inr results \<Rightarrow> Exited))
     \<and> ((\<forall>bs. \<not> started f st bs) \<longrightarrow>
          fst (main f st oneshot ticks) = []
          \<and> (\<exists>ft. snd (main f st oneshot ticks) = FatalExit ft))"
  by (auto simp: main_def started_def gerrit_calls_def run_calls_def
           split: option.splits sum.splits if_splits)

theorem one_shot_mode_witness:
  "main demo_flags good_start (Inr [result_A True, result_B False]) []
     = ([RunCall ''abc123'' [''linux-amd64'', ''darwin-arm64-12'']], Exited)
   \<and> main (demo_flags\<lparr>buildersStr := []\<rparr>) good_start (Inr []) []
     = ([RunCall ''abc123'' firstClassBuilders], Exited)
   \<and> revisionFlag demo_flags = ''abc123''
   \<and> started demo_flags good_start [''linux-amd64'', ''darwin-arm64-12'']
   \<and> started (demo_flags\<lparr>buildersStr := []\<rparr>) good_start firstClassBuilders"
  using one_shot_mode [of demo_flags good_start "Inr [result_A True, result_B False]" "[]"
          "[''linux-amd64'', ''darwin-arm64-12'']"]
     one_shot_mode [of "demo_flags\<lparr>buildersStr := []\<rparr>" good_start "Inr []" "[]"
          "firstClassBuilders"]
  by (simp add: demo_flags_def good_start_def started_def select_builders_def allowed_iff
        prod_eq_iff)

section \<open>The final report: the table\<close>

lemma split_on_notin: "c \<notin> set xs \<Longrightarrow> split_on c xs = [xs]"
  by (induction xs) auto

lemma split_on_append: "c \<notin> set xs \<Longrightarrow> split_on c (xs @ c # ys) = xs # split_on c ys"
  by (induction xs) auto

lemma plain_no_tab: "plain s \<Longrightarrow> tab \<notin> set s \<and> newline \<notin> set s"
  by (auto simp: plain_def)

lemma marker_cell_chars: "tab \<notin> set (marker_cell r) \<and> newline \<notin> set (marker_cell r)"
  by (simp add: marker_cell_def row_marker_def tab_def newline_def)

lemma name_cell_chars:
  "plain (builderType r) \<Longrightarrow> tab \<notin> set (name_cell r) \<and> newline \<notin> set (name_cell r)"
  using plain_no_tab [of "builderType r"]
  by (simp add: name_cell_def tab_def newline_def)

lemma written_row_eq: "written_row r = row_text r @ [newline]"
  by (simp add: written_row_def row_text_def name_cell_def marker_cell_def)

lemma row_text_cells:
  assumes "plain (builderType r)" and "plain (logURL r)"
  shows "split_on tab (row_text r) = [name_cell r, marker_cell r, logURL r]"
    and "newline \<notin> set (row_text r)"
proof -
  have a: "tab \<notin> set (name_cell r)" "newline \<notin> set (name_cell r)"
    using name_cell_chars assms by auto
  have b: "tab \<notin> set (marker_cell r)" "newline \<notin> set (marker_cell r)"
    using marker_cell_chars by auto
  have c: "tab \<notin> set (logURL r)" "newline \<notin> set (logURL r)"
    using plain_no_tab assms by auto
  show "split_on tab (row_text r) = [name_cell r, marker_cell r, logURL r]"
    unfolding row_text_def using a b c
    by (simp add: split_on_append split_on_notin)
  show "newline \<notin> set (row_text r)"
    unfolding row_text_def using a b c by (simp add: tab_def newline_def)
qed

lemma split_rows:
  "\<forall>r \<in> set rs. plain (builderType r) \<and> plain (logURL r) \<Longrightarrow>
   split_on newline (concat (map written_row rs)) = map row_text rs @ [[]]"
proof (induction rs)
  case Nil
  then show ?case by simp
next
  case (Cons r rs)
  have n: "newline \<notin> set (row_text r)"
    using Cons.prems row_text_cells(2) by simp
  have "split_on newline (concat (map written_row (r # rs)))
        = split_on newline (row_text r @ newline # concat (map written_row rs))"
    by (simp add: written_row_eq)
  also have "\<dots> = row_text r # split_on newline (concat (map written_row rs))"
    using n by (rule split_on_append)
  finally show ?case using Cons by simp
qed

lemma tw_lines_rows:
  assumes "\<forall>r \<in> set rs. plain (builderType r) \<and> plain (logURL r)"
  shows "tw_lines (concat (map written_row rs)) = map line3 rs @ [([], False)]"
proof -
  have "map (\<lambda>s. (split_on tab s, True)) (map row_text rs) = map line3 rs"
    using assms by (auto simp: line3_def row_text_cells(1))
  then show ?thesis
    using assms by (simp add: tw_lines_def split_rows final_line_def)
qed

lemma format_flat:
  "\<forall>l \<in> set ls. \<not> in_column (length ws) l \<Longrightarrow> format ws ls = concat (map (writeLine ws) ls)"
  by (induction ls) auto

lemma format_block:
  assumes "ls \<noteq> []" and "\<forall>l \<in> set ls. in_column (length ws) l"
    and "rest = [] \<or> \<not> in_column (length ws) (hd rest)"
  shows "format ws (ls @ rest) =
           format (ws @ [block_width (length ws) ls]) ls @ format ws rest"
proof -
  obtain l ls' where ls: "ls = l # ls'"
    using assms(1) by (cases ls) auto
  have t: "takeWhile (in_column (length ws)) (ls' @ rest) = ls'"
    using assms(2,3) ls by (cases rest) (auto simp: takeWhile_append2)
  have d: "dropWhile (in_column (length ws)) (ls' @ rest) = rest"
    using assms(2,3) ls by (cases rest) (auto simp: dropWhile_append2)
  have "in_column (length ws) l"
    using assms(2) ls by simp
  then show ?thesis
    by (simp add: ls t d)
qed

lemma block_width_col:
  "foldl (\<lambda>width l. if length (fst l ! k) + tw_padding > width
                       then length (fst l ! k) + tw_padding else width) a (map f rs)
   = foldl max a (map (\<lambda>r. length (fst (f r) ! k) + 1) rs)"
  by (induction rs arbitrary: a) (auto simp: tw_padding_def max_def)

lemma block_width_0:
  "block_width 0 (map line3 rs) = col_width (map name_cell rs)"
  using block_width_col [of 0 tw_minwidth line3 rs]
  by (simp add: block_width_def col_width_def tw_minwidth_def line3_def comp_def)

lemma block_width_1:
  "block_width (Suc 0) (map line3 rs) = col_width (map marker_cell rs)"
  using block_width_col [of "Suc 0" tw_minwidth line3 rs]
  by (simp add: block_width_def col_width_def tw_minwidth_def line3_def comp_def)

lemma writeLine_line3: "writeLine [w0, w1] (line3 r) = table_row w0 w1 r"
  by (simp add: writeLine_def line3_def padded_def tw_padchar_def table_row_def)

lemma format_rows:
  "format [] (map line3 rs @ [([], False)]) =
     concat (map (table_row (col_width (map name_cell rs)) (col_width (map marker_cell rs))) rs)"
proof (cases rs)
  case Nil
  then show ?thesis
    by (simp add: in_column_def writeLine_def)
next
  case (Cons r rs')
  let ?ls = "map line3 rs"
  let ?w0 = "col_width (map name_cell rs)"
  let ?w1 = "col_width (map marker_cell rs)"
  have ne: "?ls \<noteq> []" using Cons by simp
  have fin: "format [] [([], False)] = []"
    by (simp add: in_column_def writeLine_def)
  have a: "format [] (?ls @ [([], False)])
           = format [block_width 0 ?ls] ?ls @ format [] [([], False)]"
    using format_block [of ?ls "[]" "[([], False)]"] ne
    by (auto simp: in_column_def line3_def)
  have b: "format [?w0] ?ls = format [?w0, block_width (Suc 0) ?ls] ?ls"
    using format_block [of ?ls "[?w0]" "[]"] ne
    by (auto simp: in_column_def line3_def)
  have c: "format [?w0, ?w1] ?ls = concat (map (writeLine [?w0, ?w1]) ?ls)"
    by (rule format_flat) (auto simp: in_column_def line3_def)
  show ?thesis
    using a b c fin
    by (simp add: block_width_0 block_width_1 writeLine_line3 comp_def)
qed

lemma table_rows:
  assumes "\<forall>r \<in> set rs. plain (builderType r) \<and> plain (logURL r)"
  shows "table rs =
     concat (map (table_row (col_width (map name_cell rs)) (col_width (map marker_cell rs))) rs)"
  using assms by (simp add: table_def tabwriter_def tw_lines_rows format_rows)

lemma newlines_table_row:
  assumes "plain (builderType r)" and "plain (logURL r)"
  shows "filter (\<lambda>c. c = newline) (table_row w0 w1 r) = [newline]"
proof -
  have a: "newline \<notin> set (name_cell r)"
    using name_cell_chars assms by auto
  have b: "newline \<notin> set (marker_cell r)"
    using marker_cell_chars by auto
  have c: "newline \<notin> set (logURL r)"
    using plain_no_tab assms by auto
  have d: "filter (\<lambda>c. c = newline) (replicate n CHR '' '') = []" for n
    by (simp add: newline_def)
  have e: "newline \<notin> set xs \<Longrightarrow> filter (\<lambda>c. c = newline) xs = []" for xs
    by (induction xs) auto
  show ?thesis
    using a b c by (simp add: table_row_def padded_def d e)
qed

lemma newlines_table:
  assumes "\<forall>r \<in> set rs. plain (builderType r) \<and> plain (logURL r)"
  shows "length (filter (\<lambda>c. c = newline) (concat (map (table_row w0 w1) rs))) = length rs"
  using assms by (induction rs) (simp_all add: newlines_table_row)

text \<open>
  Claim C4, as the code has it. For results whose builder types and log locators are plain
  text, the comment of the final report is the line \<open>Tests\<close> and the state, then one line
  for each result, in the order of the list and nothing else: the builder type behind four
  spaces, the marker \<open>[pass]\<close> for a result that succeeded and \<open>[failed]\<close> for one that did
  not, and the log locator, the first two padded with spaces to the width of their column
  (its widest cell and one more).
\<close>

theorem report_rows:
  "(\<forall>r \<in> set results. plain (builderType r) \<and> plain (logURL r)) \<longrightarrow>
     message (report results) =
       ''Tests '' @ (if \<forall>r \<in> set results. succeeded r then ''succeeded'' else ''failed'')
         @ [newline] @ table results
     \<and> table results =
         concat (map (table_row (col_width (map name_cell results))
                        (col_width (map marker_cell results))) results)
     \<and> length (filter (\<lambda>c. c = newline) (table results)) = length results
     \<and> (\<forall>r \<in> set results.
           marker_cell r = (if succeeded r then ''[pass]'' else ''[failed]''))"
proof (intro impI conjI)
  assume p: "\<forall>r \<in> set results. plain (builderType r) \<and> plain (logURL r)"
  show "message (report results) =
       ''Tests '' @ (if \<forall>r \<in> set results. succeeded r then ''succeeded'' else ''failed'')
         @ [newline] @ table results"
    by (simp add: report_def results_loop_eq table_def)
  show t: "table results =
         concat (map (table_row (col_width (map name_cell results))
                        (col_width (map marker_cell results))) results)"
    using p by (rule table_rows)
  show "length (filter (\<lambda>c. c = newline) (table results)) = length results"
    unfolding t using p by (rule newlines_table)
  show "\<forall>r \<in> set results.
           marker_cell r = (if succeeded r then ''[pass]'' else ''[failed]'')"
    by (simp add: marker_cell_def row_marker_def)
qed

lemma plain_lit:
  "plain ''linux-amd64''" "plain ''darwin-arm64-12''" "plain ''u''" "plain ''v''"
  by (simp_all add: plain_def tab_def newline_def)

theorem report_rows_witness:
  "message (report [result_A True, result_B False]) =
     ''Tests failed'' @ [newline]
       @ ''    linux-amd64     [pass]   u'' @ [newline]
       @ ''    darwin-arm64-12 [failed] v'' @ [newline]
   \<and> plain (builderType (result_A True)) \<and> plain (logURL (result_A True))
   \<and> plain (builderType (result_B False)) \<and> plain (logURL (result_B False))"
  using report_rows [of "[result_A True, result_B False]"]
  by (simp add: result_A_def result_B_def plain_lit table_row_def padded_def col_width_def
      name_cell_def marker_cell_def row_marker_def)

text \<open>
  The marker of a failed result is \<open>[failed]\<close>, not \<open>[fail]\<close>: the report of one failed
  result.
\<close>

theorem fail_marker_counterexample:
  "message (report [result_B False]) =
     ''Tests failed'' @ [newline] @ ''    darwin-arm64-12 [failed] v'' @ [newline]
   \<and> message (report [result_B False]) \<noteq>
     ''Tests failed'' @ [newline] @ ''    darwin-arm64-12 [fail] v'' @ [newline]"
  by (simp add: result_B_def report_def tabwriter_def tw_lines_def final_line_def
      in_column_def writeLine_def block_width_def tw_padding_def tw_minwidth_def tw_padchar_def
      tab_def newline_def)

section \<open>The live log sink: what Close returns, and what goes on after it\<close>

lemma sink_step_closer:
  "sink_step a s = Some s' \<Longrightarrow> closer s' = NotCalled \<longleftrightarrow> closer s = NotCalled \<and> a \<noteq> CloseSend"
  by (cases a)
     (auto simp: upload_buf_def split: if_splits option.splits flusher_pc.splits list.splits)

lemma sink_step_inv:
  assumes "sink_step a s = Some s'" and "sink_inv s" and "\<not> failed_tick a"
    and "is_write a \<longrightarrow> closer s = NotCalled"
  shows "sink_inv s'"
proof (cases a)
  case (UserWrite b)
  with assms show ?thesis
    by (auto simp: sink_inv_def finals_def flushed_def split: if_splits closer_pc.splits)
next
  case (Tick r)
  with assms have "r = None" by (cases r) auto
  with Tick assms show ?thesis
    by (auto simp: sink_inv_def finals_def flushed_def upload_buf_def
             split: if_splits closer_pc.splits)
next
  case (Stop r)
  with assms show ?thesis
    by (auto simp: sink_inv_def finals_def flushed_def upload_buf_def chan_cap_def
             split: if_splits closer_pc.splits)
next
  case Unblock
  with assms show ?thesis
    by (auto simp: sink_inv_def split: flusher_pc.splits)
next
  case CloseSend
  with assms show ?thesis
    by (auto simp: sink_inv_def finals_def chan_cap_def split: if_splits closer_pc.splits)
next
  case CloseRecv
  with assms show ?thesis
    by (auto simp: sink_inv_def finals_def flushed_def split: if_splits closer_pc.splits list.splits)
qed

lemma sink_run_inv:
  "sink_run acts s = Some s' \<Longrightarrow> sink_inv s \<Longrightarrow> ticks_succeed acts \<Longrightarrow>
   (if closer s = NotCalled then no_write_after_close acts else \<not> list_ex is_write acts) \<Longrightarrow>
   sink_inv s'"
proof (induction acts arbitrary: s)
  case Nil
  then show ?case by simp
next
  case (Cons a acts)
  from Cons.prems(1) obtain s1 where step: "sink_step a s = Some s1"
    and rest: "sink_run acts s1 = Some s'"
    by (auto split: option.splits)
  have ft: "\<not> failed_tick a" and ts: "ticks_succeed acts"
    using Cons.prems(3) by (auto simp: ticks_succeed_def)
  have wr: "is_write a \<longrightarrow> closer s = NotCalled"
    using Cons.prems(4) by (auto simp: no_write_after_close_def split: if_splits)
  have inv1: "sink_inv s1"
    using step Cons.prems(2) ft wr by (rule sink_step_inv)
  have c1: "if closer s1 = NotCalled then no_write_after_close acts else \<not> list_ex is_write acts"
    using Cons.prems(4) sink_step_closer [OF step]
    by (auto simp: no_write_after_close_def split: if_splits)
  show ?case
    using rest inv1 ts c1 by (rule Cons.IH)
qed

lemma newLiveWriter_Inr: "newLiveWriter r0 = Inr s0 \<Longrightarrow> s0 = fresh_sink"
  by (auto simp: newLiveWriter_def fresh_sink_def split: option.splits)

lemma fresh_sink_inv: "sink_inv fresh_sink"
  by (simp add: sink_inv_def fresh_sink_def finals_def)

lemma sink_run_append:
  "sink_run (as @ bs) s =
     (case sink_run as s of None \<Rightarrow> None | Some s' \<Rightarrow> sink_run bs s')"
  by (induction as arbitrary: s) (auto split: option.splits)

text \<open>
  \<^verbatim>\<open>Close\<close> can always be called and can always return, whatever has happened to the sink
  before: its send finds \<open>stopCh\<close> empty, and then either an error is waiting in \<open>errCh\<close> or
  the goroutine is free to make the final flush and send its outcome.
\<close>

lemma sink_step_live:
  assumes "sink_step a s = Some s'" and "sink_live s"
  shows "sink_live s'"
proof (cases a)
  case (UserWrite b)
  with assms show ?thesis
    by (auto simp: sink_live_def split: if_splits)
next
  case (Tick r)
  with assms show ?thesis
    by (cases r) (auto simp: sink_live_def upload_buf_def chan_cap_def split: if_splits)
next
  case (Stop r)
  with assms show ?thesis
    by (auto simp: sink_live_def upload_buf_def chan_cap_def split: if_splits)
next
  case Unblock
  with assms show ?thesis
    by (auto simp: sink_live_def chan_cap_def split: flusher_pc.splits if_splits)
next
  case CloseSend
  with assms show ?thesis
    by (auto simp: sink_live_def chan_cap_def split: if_splits)
next
  case CloseRecv
  with assms show ?thesis
    by (auto simp: sink_live_def split: if_splits list.splits)
qed

lemma sink_run_live:
  "sink_run acts s = Some s' \<Longrightarrow> sink_live s \<Longrightarrow> sink_live s'"
  by (induction acts arbitrary: s) (auto split: option.splits dest: sink_step_live)

lemma fresh_sink_live: "sink_live fresh_sink"
  by (simp add: sink_live_def fresh_sink_def)

lemma receiving_can_return:
  assumes "sink_live s" and "closer s = Receiving"
  shows "\<exists>more s' r. sink_run more s = Some s' \<and> closer s' = Returned r"
proof (cases "errCh s")
  case (Cons e es)
  then have "\<exists>s'. sink_run [CloseRecv] s = Some s' \<and> closer s' = Returned e"
    using assms(2) by simp
  then show ?thesis by blast
next
  case Nil
  then have f: "flusher s = Selecting" and st: "stopCh s \<noteq> []"
    using assms by (auto simp: sink_live_def)
  have "\<exists>s'. sink_run [Stop None, CloseRecv] s = Some s' \<and> closer s' = Returned None"
    using Nil f st assms(2) by (simp add: upload_buf_def chan_cap_def)
  then show ?thesis by blast
qed

lemma close_can_return:
  assumes "sink_run acts fresh_sink = Some s" and "closer s = NotCalled"
  shows "\<exists>more s' r. sink_run (CloseSend # more) s = Some s' \<and> closer s' = Returned r"
proof -
  have live: "sink_live s"
    using assms(1) fresh_sink_live by (rule sink_run_live)
  then have "stopCh s = []"
    using assms(2) by (simp add: sink_live_def)
  then have step:
    "sink_step CloseSend s = Some (s\<lparr>stopCh := stopCh s @ [True], closer := Receiving\<rparr>)"
    using assms(2) by (simp add: chan_cap_def)
  let ?s1 = "s\<lparr>stopCh := stopCh s @ [True], closer := Receiving\<rparr>"
  have "sink_live ?s1"
    using step live by (rule sink_step_live)
  moreover have "closer ?s1 = Receiving" by simp
  ultimately obtain more s' r where "sink_run more ?s1 = Some s'" and "closer s' = Returned r"
    using receiving_can_return by blast
  then show ?thesis
    using step by auto
qed

text \<open>
  Before \<^verbatim>\<open>Close\<close> is called, a flushing goroutine that is blocked in its send stays
  blocked, and nothing else moves: no \<^verbatim>\<open>Write\<close> gets the mutex, no tick is taken, and the
  send does not go through, since nothing receives from \<open>errCh\<close>.
\<close>

lemma blocked_until_close:
  assumes "sink_live s" and "closer s = NotCalled" and "flusher s \<noteq> Selecting"
    and "a \<noteq> CloseSend"
  shows "sink_step a s = None"
  using assms
  by (cases a)
     (auto simp: sink_live_def chan_cap_def split: flusher_pc.splits option.splits)

text \<open>
  An error that waits in \<open>errCh\<close> when \<^verbatim>\<open>Close\<close> is called is the error \<^verbatim>\<open>Close\<close> returns,
  whatever happens in between.
\<close>

lemma sink_step_returned:
  "sink_step a s = Some s' \<Longrightarrow> closer s = Returned r \<Longrightarrow> closer s' = Returned r"
  by (cases a)
     (auto simp: upload_buf_def split: if_splits option.splits flusher_pc.splits list.splits)

lemma sink_run_returned:
  "sink_run acts s = Some s' \<Longrightarrow> closer s = Returned r \<Longrightarrow> closer s' = Returned r"
  by (induction acts arbitrary: s) (auto split: option.splits dest: sink_step_returned)

lemma sink_step_pending:
  assumes "sink_step a s = Some s'" and "errCh s = e # es" and "closer s = Receiving"
    and "a \<noteq> CloseRecv"
  shows "(\<exists>es'. errCh s' = e # es') \<and> closer s' = Receiving"
  using assms
  by (cases a)
     (auto simp: upload_buf_def chan_cap_def
           split: if_splits option.splits flusher_pc.splits list.splits)

lemma sink_run_pending:
  "sink_run acts s = Some s' \<Longrightarrow> errCh s = e # es \<Longrightarrow> closer s = Receiving \<Longrightarrow>
   closer s' = Receiving \<Longrightarrow> \<exists>es'. errCh s' = e # es'"
proof (induction acts arbitrary: s es)
  case Nil
  then show ?case by simp
next
  case (Cons a acts)
  from Cons.prems(1) obtain s1 where step: "sink_step a s = Some s1"
    and rest: "sink_run acts s1 = Some s'"
    by (auto split: option.splits)
  show ?case
  proof (cases "a = CloseRecv")
    case True
    then have "closer s1 = Returned e"
      using step Cons.prems(2,3) by auto
    then have "closer s' = Returned e"
      using rest sink_run_returned by blast
    then show ?thesis using Cons.prems(4) by simp
  next
    case False
    then obtain es1 where "errCh s1 = e # es1" and "closer s1 = Receiving"
      using sink_step_pending [OF step Cons.prems(2,3)] by blast
    then show ?thesis
      using Cons.IH rest Cons.prems(4) by blast
  qed
qed

lemma close_returns_pending:
  assumes "sink_run (CloseSend # later @ [CloseRecv]) s1 = Some s" and "errCh s1 = e # es"
  shows "closer s = Returned e"
proof -
  from assms(1) obtain s2 s3 where a: "sink_step CloseSend s1 = Some s2"
    and b: "sink_run later s2 = Some s3" and c: "sink_step CloseRecv s3 = Some s"
    by (auto simp: sink_run_append split: option.splits)
  have s2: "errCh s2 = e # es" "closer s2 = Receiving"
    using a assms(2) by (auto split: if_splits)
  have s3: "closer s3 = Receiving"
    using c by (auto split: if_splits)
  obtain es' where "errCh s3 = e # es'"
    using sink_run_pending [OF b s2 s3] by blast
  then show ?thesis
    using c by (auto split: if_splits)
qed

text \<open>
  With no periodic flush failed and nothing written after the call of \<^verbatim>\<open>Close\<close>: when
  \<^verbatim>\<open>Close\<close> returns, exactly one final flush has been made, of the whole buffer, and
  \<^verbatim>\<open>Close\<close> returns the error of that flush.
\<close>

lemma final_flush_at_return:
  assumes new: "newLiveWriter r0 = Inr s0"
    and run: "sink_run (acts @ [CloseRecv]) s0 = Some s"
    and ts: "ticks_succeed acts" and nw: "no_write_after_close acts"
  shows "\<exists>r. closer s = Returned r
      \<and> finals s = [\<lparr>kind = Final, content = buf s, outcome = r\<rparr>]
      \<and> (r = None \<longrightarrow> obj s = buf s)"
proof -
  have s0: "s0 = fresh_sink"
    using new by (rule newLiveWriter_Inr)
  from run obtain s1 where a: "sink_run acts fresh_sink = Some s1"
    and b: "sink_step CloseRecv s1 = Some s"
    by (auto simp: s0 sink_run_append split: option.splits)
  have "sink_inv s1"
    using a fresh_sink_inv ts
  proof (rule sink_run_inv)
    show "if closer fresh_sink = NotCalled then no_write_after_close acts
          else \<not> list_ex is_write acts"
      using nw by (simp add: fresh_sink_def)
  qed
  with b show ?thesis
    by (auto simp: sink_inv_def flushed_def finals_def split: if_splits list.splits)
qed

text \<open>
  Claim C6, on the code. A periodic flush that failed leaves its error in \<open>errCh\<close>, the
  channel \<^verbatim>\<open>Close\<close> receives from. In the first schedule the final flush is made and succeeds,
  and \<^verbatim>\<open>Close\<close> returns the error of the periodic flush, not nil. In the second, \<^verbatim>\<open>Close\<close> has
  returned that error before any final flush was made: the stored object is still empty and
  the buffer is not.
\<close>

theorem close_returns_stale_error:
  "sink_run [UserWrite ''a'', Tick (Some ''e1''), CloseSend, Stop None, CloseRecv] fresh_sink =
     Some \<lparr>obj = ''a'', buf = ''a'', stopCh = [], errCh = [], flusher = SendingStop None,
           closer = Returned (Some ''e1''),
           uploads = [\<lparr>kind = Initial, content = [], outcome = None\<rparr>,
                      \<lparr>kind = Periodic, content = ''a'', outcome = Some ''e1''\<rparr>,
                      \<lparr>kind = Final, content = ''a'', outcome = None\<rparr>]\<rparr>
   \<and> sink_run [UserWrite ''a'', Tick (Some ''e1''), CloseSend, CloseRecv] fresh_sink =
     Some \<lparr>obj = [], buf = ''a'', stopCh = [True], errCh = [], flusher = Selecting,
           closer = Returned (Some ''e1''),
           uploads = [\<lparr>kind = Initial, content = [], outcome = None\<rparr>,
                      \<lparr>kind = Periodic, content = ''a'', outcome = Some ''e1''\<rparr>]\<rparr>
   \<and> newLiveWriter None = Inr fresh_sink"
  by (simp add: newLiveWriter_def fresh_sink_def upload_buf_def chan_cap_def)

text \<open>
  Claim C7, on the code: the flushing goroutine has no way out of its loop. After \<^verbatim>\<open>Close\<close>
  has returned, the ticker fires and the goroutine uploads the buffer again, twice here.
\<close>

theorem flusher_outlives_close:
  "sink_run [UserWrite ''a'', CloseSend, Stop None, CloseRecv, Tick None, Tick None] fresh_sink =
     Some \<lparr>obj = ''a'', buf = ''a'', stopCh = [], errCh = [], flusher = Selecting,
           closer = Returned None,
           uploads = [\<lparr>kind = Initial, content = [], outcome = None\<rparr>,
                      \<lparr>kind = Final, content = ''a'', outcome = None\<rparr>,
                      \<lparr>kind = Periodic, content = ''a'', outcome = None\<rparr>,
                      \<lparr>kind = Periodic, content = ''a'', outcome = None\<rparr>]\<rparr>
   \<and> newLiveWriter None = Inr fresh_sink"
  by (simp add: newLiveWriter_def fresh_sink_def upload_buf_def chan_cap_def)

section \<open>The fan-out dispatcher: results, and a run that never returns\<close>

lemma mset_remove_nth:
  "i < length xs \<Longrightarrow> mset (take i xs @ drop (Suc i) xs) + {#xs ! i#} = mset xs"
proof -
  assume "i < length xs"
  then have "xs = take i xs @ xs ! i # drop (Suc i) xs"
    by (rule id_take_nth_drop)
  then have "mset xs = mset (take i xs @ xs ! i # drop (Suc i) xs)"
    by simp
  then show ?thesis by simp
qed

lemma run_step_accounted:
  assumes "run_step job cap a s = Some s'" and "\<forall>x r. job x = Some r \<longrightarrow> r = res x"
  shows "accounted res s' = accounted res s"
proof (cases a)
  case Launch
  with assms show ?thesis
    by (auto simp: accounted_def split: list.splits)
next
  case (Finish i)
  with assms obtain r where i: "i < length (running s)"
    and r: "job (running s ! i) = Some r"
    and s': "s' = s\<lparr>running := take i (running s) @ drop (Suc i) (running s),
                   resultsCh := resultsCh s @ [r],
                   wg := wg s - 1\<rparr>"
    by (auto split: if_splits option.splits)
  have rr: "r = res (running s ! i)"
    using r assms(2) by blast
  have "mset (map res (take i (running s) @ drop (Suc i) (running s))) + {#res (running s ! i)#}
        = mset (map res (running s))"
    using mset_remove_nth [of i "map res (running s)"] i
    by (simp add: take_map drop_map)
  then show ?thesis
    by (simp add: s' rr accounted_def)
qed

lemma run_step_inv:
  assumes "run_step job cap a s = Some s'" and "run_inv cap s"
  shows "run_inv cap s'"
proof (cases a)
  case Launch
  with assms show ?thesis
    by (auto simp: run_inv_def split: list.splits)
next
  case (Finish i)
  with assms show ?thesis
    by (auto simp: run_inv_def min_def split: if_splits option.splits)
qed

lemma run_steps_accounted:
  "run_steps job cap sched s = Some s' \<Longrightarrow> \<forall>x r. job x = Some r \<longrightarrow> r = res x \<Longrightarrow>
   accounted res s' = accounted res s"
proof (induction sched arbitrary: s)
  case Nil
  then show ?case by simp
next
  case (Cons a sched)
  from Cons.prems(1) obtain s1 where step: "run_step job cap a s = Some s1"
    and rest: "run_steps job cap sched s1 = Some s'"
    by (auto split: option.splits)
  have "accounted res s1 = accounted res s"
    using step Cons.prems(2) by (rule run_step_accounted)
  moreover have "accounted res s' = accounted res s1"
    using rest Cons.prems(2) by (rule Cons.IH)
  ultimately show ?case by simp
qed

lemma run_steps_inv:
  "run_steps job cap sched s = Some s' \<Longrightarrow> run_inv cap s \<Longrightarrow> run_inv cap s'"
  by (induction sched arbitrary: s) (auto split: option.splits dest: run_step_inv)

lemma run_init_inv: "run_inv (length builders) (run_init builders)"
  by (simp add: run_inv_def run_init_def)

lemma run_init_accounted:
  "accounted res (run_init builders) = mset (map res (zip [0..<length builders] builders))"
  by (simp add: accounted_def run_init_def)

lemma wait_returns_results:
  assumes "run_inv cap s" and "wait_returns s"
  shows "mset (resultsCh s) = accounted res s"
  using assms by (simp add: run_inv_def wait_returns_def accounted_def)

lemma run_steps_append:
  "run_steps job cap (as @ bs) s =
     (case run_steps job cap as s of None \<Rightarrow> None | Some s' \<Rightarrow> run_steps job cap bs s')"
  by (induction as arbitrary: s) (auto split: option.splits)

lemma launch_all:
  "to_launch s = xs @ ys \<Longrightarrow>
   run_steps job cap (replicate (length xs) Launch) s =
     Some (s\<lparr>to_launch := ys, running := running s @ xs, wg := wg s + length xs\<rparr>)"
  by (induction xs arbitrary: s) auto

lemma finish_all:
  "running s = xs \<Longrightarrow> length (resultsCh s) + length xs \<le> cap \<Longrightarrow> length xs \<le> wg s \<Longrightarrow>
   \<forall>x \<in> set xs. job x = Some (res x) \<Longrightarrow>
   run_steps job cap (replicate (length xs) (Finish 0)) s =
     Some (s\<lparr>running := [], resultsCh := resultsCh s @ map res xs, wg := wg s - length xs\<rparr>)"
proof (induction xs arbitrary: s)
  case Nil
  then show ?case by simp
next
  case (Cons x xs)
  let ?s1 = "s\<lparr>running := xs, resultsCh := resultsCh s @ [res x], wg := wg s - 1\<rparr>"
  have step: "run_step job cap (Finish 0) s = Some ?s1"
    using Cons.prems by simp
  have "run_steps job cap (replicate (length xs) (Finish 0)) ?s1 =
     Some (?s1\<lparr>running := [], resultsCh := resultsCh ?s1 @ map res xs,
               wg := wg ?s1 - length xs\<rparr>)"
    using Cons.prems by (intro Cons.IH) auto
  then show ?case using step by simp
qed

lemma builderType_worker_result:
  "map builderType (map (worker_result t g wenv revision archive) (zip [0..<length bs] bs)) = bs"
proof -
  have "map (builderType \<circ> worker_result t g wenv revision archive) (zip [0..<length bs] bs)
        = map snd (zip [0..<length bs] bs)"
    by (rule map_cong) (auto simp: worker_result_def split: prod.splits)
  then show ?thesis by simp
qed

lemma goroutine_result:
  "goroutine t g wenv sinkev revision archive x = Some r \<Longrightarrow>
   r = worker_result t g wenv revision archive x"
  by (cases x) (auto simp: goroutine_def split: if_splits)

lemma goroutine_Some:
  "goroutine t g wenv sinkev revision archive x \<noteq> None \<Longrightarrow>
   goroutine t g wenv sinkev revision archive x = Some (worker_result t g wenv revision archive x)"
  by (cases x) (auto simp: goroutine_def split: if_splits)

lemma in_order_runs:
  assumes "\<forall>x \<in> set (zip [0..<length bs] bs). job x = Some (res x)"
  shows "run_steps job (length bs) (in_order (length bs)) (run_init bs) =
     Some \<lparr>to_launch = [], running = [], wg = 0,
           resultsCh = map res (zip [0..<length bs] bs)\<rparr>"
proof -
  let ?xs = "zip [0..<length bs] bs"
  have n: "length ?xs = length bs" by simp
  have a: "run_steps job (length bs) (replicate (length ?xs) Launch) (run_init bs) =
     Some ((run_init bs)\<lparr>to_launch := [], running := running (run_init bs) @ ?xs,
              wg := wg (run_init bs) + length ?xs\<rparr>)"
    by (rule launch_all) (simp add: run_init_def)
  let ?s1 = "(run_init bs)\<lparr>to_launch := [], running := running (run_init bs) @ ?xs,
              wg := wg (run_init bs) + length ?xs\<rparr>"
  have b: "run_steps job (length bs) (replicate (length ?xs) (Finish 0)) ?s1 =
     Some (?s1\<lparr>running := [], resultsCh := resultsCh ?s1 @ map res ?xs,
               wg := wg ?s1 - length ?xs\<rparr>)"
    by (rule finish_all) (use assms in \<open>simp_all add: run_init_def\<close>)
  show ?thesis
    using a b unfolding in_order_def n run_steps_append
    by (simp add: run_init_def)
qed

text \<open>
  What is left to do in a state is in the list of the builder types: nothing comes into
  the loop or among the running goroutines from elsewhere.
\<close>

lemma run_step_pending:
  assumes "run_step job cap a s = Some s'"
  shows "set (to_launch s') \<union> set (running s') \<subseteq> set (to_launch s) \<union> set (running s)"
proof (cases a)
  case Launch
  with assms show ?thesis
    by (auto split: list.splits)
next
  case (Finish i)
  with assms show ?thesis
    by (auto split: if_splits option.splits dest: in_set_takeD in_set_dropD)
qed

lemma run_steps_pending:
  "run_steps job cap sched s = Some s' \<Longrightarrow>
   set (to_launch s') \<union> set (running s') \<subseteq> set (to_launch s) \<union> set (running s)"
proof (induction sched arbitrary: s)
  case Nil
  then show ?case by simp
next
  case (Cons a sched)
  from Cons.prems obtain s1 where step: "run_step job cap a s = Some s1"
    and rest: "run_steps job cap sched s1 = Some s'"
    by (auto split: option.splits)
  show ?case
    using run_step_pending [OF step] Cons.IH [OF rest] by blast
qed

text \<open>
  When \<^verbatim>\<open>run\<close> returns, under any schedule, it returns no error and exactly one result for
  each requested builder type, the one \<^verbatim>\<open>runTests\<close> gave for it.
\<close>

lemma run_results_when_returns:
  assumes ok: "snd (getTar t h revision) = Inr archive"
    and r: "run t h g wenv sinkev sched revision builders = Some out"
  shows "\<exists>results. out = Inr results \<and> length results = length builders
           \<and> mset (map builderType results) = mset builders
           \<and> mset results = mset (map (worker_result t g wenv revision archive)
                                  (zip [0..<length builders] builders))"
proof -
  let ?job = "goroutine t g wenv sinkev revision archive"
  let ?res = "worker_result t g wenv revision archive"
  let ?all = "map ?res (zip [0..<length builders] builders)"
  from r obtain s
    where steps: "run_steps ?job (length builders) sched (run_init builders) = Some s"
      and w: "wait_returns s" and out: "out = Inr (resultsCh s)"
    using ok by (auto simp: run_def split: option.splits if_splits)
  have jr: "\<forall>x r. ?job x = Some r \<longrightarrow> r = ?res x"
    using goroutine_result by blast
  have inv: "run_inv (length builders) s"
    using steps run_init_inv by (rule run_steps_inv)
  have "mset (resultsCh s) = accounted ?res s"
    using inv w by (rule wait_returns_results)
  also have "\<dots> = accounted ?res (run_init builders)"
    using steps jr by (rule run_steps_accounted)
  finally have m: "mset (resultsCh s) = mset ?all"
    by (simp add: run_init_accounted)
  then have "mset (map builderType (resultsCh s)) = mset (map builderType ?all)"
    by (metis mset_map)
  then have b: "mset (map builderType (resultsCh s)) = mset builders"
    by (simp only: builderType_worker_result)
  have l: "length (resultsCh s) = length builders"
    using m by (metis length_map length_zip min.idem length_upt diff_zero mset_eq_length)
  show ?thesis
    using out m b l by blast
qed

text \<open>
  When the \<^verbatim>\<open>runTests\<close> of every goroutine returns, \<^verbatim>\<open>run\<close> can return, and no execution of
  it gets stuck: the sends on the channel never block.
\<close>

lemma run_returns_when_workers_return:
  assumes ok: "snd (getTar t h revision) = Inr archive"
    and all: "\<forall>x \<in> set (zip [0..<length builders] builders).
                goroutine t g wenv sinkev revision archive x \<noteq> None"
  shows "run t h g wenv sinkev (in_order (length builders)) revision builders
       = Some (Inr (map (worker_result t g wenv revision archive)
                      (zip [0..<length builders] builders)))"
proof -
  have "\<forall>x \<in> set (zip [0..<length builders] builders).
          goroutine t g wenv sinkev revision archive x
            = Some (worker_result t g wenv revision archive x)"
    using all goroutine_Some by blast
  then have "run_steps (goroutine t g wenv sinkev revision archive) (length builders)
               (in_order (length builders)) (run_init builders) =
     Some \<lparr>to_launch = [], running = [], wg = 0,
           resultsCh = map (worker_result t g wenv revision archive)
                         (zip [0..<length builders] builders)\<rparr>"
    by (rule in_order_runs)
  then show ?thesis
    using ok by (simp add: run_def wait_returns_def)
qed

lemma run_never_stuck:
  assumes steps: "run_steps job (length bs) sched (run_init bs) = Some s"
    and all: "\<forall>x \<in> set (zip [0..<length bs] bs). job x = Some (res x)"
  shows "\<exists>later s'. run_steps job (length bs) (sched @ later) (run_init bs) = Some s'
            \<and> wait_returns s'"
proof -
  have inv: "run_inv (length bs) s"
    using steps run_init_inv by (rule run_steps_inv)
  have sub: "set (to_launch s) \<union> set (running s) \<subseteq> set (zip [0..<length bs] bs)"
    using run_steps_pending [OF steps] by (simp add: run_init_def)
  let ?s1 = "s\<lparr>to_launch := [], running := running s @ to_launch s,
                wg := wg s + length (to_launch s)\<rparr>"
  have a: "run_steps job (length bs) (replicate (length (to_launch s)) Launch) s = Some ?s1"
    by (rule launch_all) simp
  let ?s2 = "?s1\<lparr>running := [], resultsCh := resultsCh ?s1 @ map res (running ?s1),
                  wg := wg ?s1 - length (running ?s1)\<rparr>"
  have b: "run_steps job (length bs) (replicate (length (running ?s1)) (Finish 0)) ?s1 = Some ?s2"
    using inv sub all by (intro finish_all) (auto simp: run_inv_def)
  have "run_steps job (length bs)
          (sched @ replicate (length (to_launch s)) Launch
                 @ replicate (length (running ?s1)) (Finish 0)) (run_init bs) = Some ?s2"
    using steps a b by (simp add: run_steps_append)
  moreover have "wait_returns ?s2"
    using inv by (simp add: wait_returns_def run_inv_def)
  ultimately show ?thesis by blast
qed

text \<open>
  A goroutine whose \<^verbatim>\<open>runTests\<close> never returns stays among the goroutines to start or
  running, so the counter of the wait group never comes back to zero: \<^verbatim>\<open>run\<close> does not
  return, under any schedule.
\<close>

lemma run_step_keeps:
  assumes "run_step job cap a s = Some s'" and "job x = None"
    and "x \<in> set (to_launch s) \<union> set (running s)"
  shows "x \<in> set (to_launch s') \<union> set (running s')"
proof (cases a)
  case Launch
  with assms show ?thesis
    by (auto split: list.splits)
next
  case (Finish i)
  with assms obtain r where i: "i < length (running s)"
    and r: "job (running s ! i) = Some r"
    and s': "s' = s\<lparr>running := take i (running s) @ drop (Suc i) (running s),
                   resultsCh := resultsCh s @ [r],
                   wg := wg s - 1\<rparr>"
    by (auto split: if_splits option.splits)
  have ne: "x \<noteq> running s ! i"
    using r assms(2) by auto
  have "x \<in> set (running s) \<Longrightarrow> x \<in> set (take i (running s) @ drop (Suc i) (running s))"
  proof -
    assume "x \<in> set (running s)"
    then have "x \<in># mset (take i (running s) @ drop (Suc i) (running s)) + {#running s ! i#}"
      using mset_remove_nth [OF i] by (metis set_mset_mset)
    then show ?thesis using ne by auto
  qed
  then show ?thesis
    using assms(3) by (auto simp: s')
qed

lemma run_steps_keeps:
  "run_steps job cap sched s = Some s' \<Longrightarrow> job x = None \<Longrightarrow>
   x \<in> set (to_launch s) \<union> set (running s) \<Longrightarrow> x \<in> set (to_launch s') \<union> set (running s')"
proof (induction sched arbitrary: s)
  case Nil
  then show ?case by simp
next
  case (Cons a sched)
  from Cons.prems(1) obtain s1 where step: "run_step job cap a s = Some s1"
    and rest: "run_steps job cap sched s1 = Some s'"
    by (auto split: option.splits)
  have "x \<in> set (to_launch s1) \<union> set (running s1)"
    using step Cons.prems(2,3) by (rule run_step_keeps)
  with rest Cons.prems(2) show ?case by (rule Cons.IH)
qed

lemma run_waits_for_ever:
  assumes ok: "snd (getTar t h revision) = Inr archive"
    and x: "x \<in> set (zip [0..<length builders] builders)"
    and stuck: "goroutine t g wenv sinkev revision archive x = None"
  shows "run t h g wenv sinkev sched revision builders = None"
proof (rule ccontr)
  let ?job = "goroutine t g wenv sinkev revision archive"
  assume "run t h g wenv sinkev sched revision builders \<noteq> None"
  then obtain s
    where steps: "run_steps ?job (length builders) sched (run_init builders) = Some s"
      and w: "wait_returns s"
    using ok by (auto simp: run_def split: option.splits if_splits)
  have inv: "run_inv (length builders) s"
    using steps run_init_inv by (rule run_steps_inv)
  have "x \<in> set (to_launch s) \<union> set (running s)"
    using steps stuck
  proof (rule run_steps_keeps)
    show "x \<in> set (to_launch (run_init builders)) \<union> set (running (run_init builders))"
      using x by (simp add: run_init_def)
  qed
  moreover have "to_launch s = [] \<and> running s = []"
    using inv w by (simp add: run_inv_def wait_returns_def)
  ultimately show False by simp
qed

lemma stuck_output_blocks: "exec_sink stuck_output fresh_sink = None"
  by (simp add: stuck_output_def fresh_sink_def upload_buf_def chan_cap_def)

lemma stuck_goroutine:
  "goroutine demo_tester demo_globals (\<lambda>i. good_worker) (\<lambda>i. stuck_output) ''abc123'' gz
     (0, ''linux-amd64'') = None"
  by (simp add: goroutine_def runTests_returns_def stuck_output_blocks runTests_def staged_def
      with_output_def run_all_def demo_globals_def demo_config_def demo_tester_def
      good_worker_def Let_def)

lemma demo_archive: "snd (getTar demo_tester (demo_http 200 gz) ''abc123'') = Inr gz"
  by (simp add: getTar_def demo_http_def gz_def http_StatusOK_def)

text \<open>
  Claim C1, on the code. One builder type, logs going to the storage, every call to the
  worker provider succeeding: the test script writes output, two periodic flushes of the
  sink fail, and the script writes again. The second failure leaves the flushing goroutine
  blocked in its send on \<open>errCh\<close> with the mutex held, the \<^verbatim>\<open>Write\<close> of the output waits for
  the mutex for ever, \<^verbatim>\<open>runTests\<close> does not return, and \<^verbatim>\<open>run\<close> returns no result for the
  builder type: under no schedule does it return at all.
\<close>

theorem run_never_returns:
  "run demo_tester (demo_http 200 gz) demo_globals (\<lambda>i. good_worker) (\<lambda>i. stuck_output)
     sched ''abc123'' [''linux-amd64''] = None
   \<and> exec_sink stuck_output fresh_sink = None"
proof
  show "run demo_tester (demo_http 200 gz) demo_globals (\<lambda>i. good_worker) (\<lambda>i. stuck_output)
     sched ''abc123'' [''linux-amd64''] = None"
    using demo_archive
  proof (rule run_waits_for_ever)
    show "(0, ''linux-amd64'') \<in> set (zip [0..<length [''linux-amd64'']] [''linux-amd64''])"
      by simp
    show "goroutine demo_tester demo_globals (\<lambda>i. good_worker) (\<lambda>i. stuck_output) ''abc123'' gz
       (0, ''linux-amd64'') = None"
      by (rule stuck_goroutine)
  qed
  show "exec_sink stuck_output fresh_sink = None"
    by (rule stuck_output_blocks)
qed

text \<open>The same run with a sink whose flushes succeed returns its result.\<close>

lemma run_returns_example:
  "run demo_tester (demo_http 200 gz) demo_globals demo_wenv
     (\<lambda>i. [Output ''a'', Ticked None, Output ''b''])
     [Launch, Launch, Finish 1, Finish 0] ''abc123'' [''linux-amd64'', ''darwin-arm64-12'']
   = Some (Inr [\<lparr>builderType = ''darwin-arm64-12'',
          logURL = ''https://storage.cloud.google.com/logs/abc123-010203ff/darwin-arm64-12'',
          succeeded = True\<rparr>,
       \<lparr>builderType = ''linux-amd64'',
          logURL = ''https://storage.cloud.google.com/logs/abc123-010203ff/linux-amd64'',
          succeeded = False\<rparr>])"
  by (simp add: run_def getTar_def demo_http_def gz_def http_StatusOK_def run_init_def upt_rec
      wait_returns_def goroutine_def worker_result_def runTests_returns_def runTests_def
      staged_def with_output_def run_all_def fresh_sink_def upload_buf_def chan_cap_def
      demo_globals_def demo_config_def demo_tester_def demo_wenv_def failing_tests_def
      good_worker_def hex_def hex_digit_def Let_def)

end
